theory Spec2Isabelle
  imports Complex_Main "HOL-Library.Word"
begin

section \<open>Python values\<close>

text \<open>
  The values that flow through \<^verbatim>\<open>main.py\<close> are dynamically typed: what
  \<^verbatim>\<open>json.loads\<close> returns, what a tool returns, what the agent run
  returns. A float is its IEEE-754 double bit pattern; float arithmetic is a
  parameter of the model (see \<open>env\<close>), never replaced by exact arithmetic.
  A dict is an association list read with \<open>map_of\<close>.
\<close>

type_synonym pyfloat = "64 word"

datatype pyval =
    PNone
  | PBool bool
  | PInt int
  | PFloat pyfloat
  | PStr string
  | PList "pyval list"
  | PDict "(string \<times> pyval) list"

datatype exn =
    HTTPException nat string
  | AttributeError
  | KeyError
  | IndexError
  | TypeError
  | ValueError
  | OverflowError
  | JSONDecodeError
  | RecursionError
  | OperationFailure
  | ExternalError string

text \<open>\<^verbatim>\<open>x == 0.0\<close> on a double: both signed zeros.\<close>

definition float_is_zero :: "pyfloat \<Rightarrow> bool" where
  "float_is_zero w = (w = 0 \<or> w = 0x8000000000000000)"

text \<open>Python truthiness, as \<^verbatim>\<open>if x\<close>, \<^verbatim>\<open>not x\<close> and \<^verbatim>\<open>x and y\<close> test it.\<close>

fun truthy :: "pyval \<Rightarrow> bool" where
  "truthy PNone = False"
| "truthy (PBool b) = b"
| "truthy (PInt i) = (i \<noteq> 0)"
| "truthy (PFloat f) = (\<not> float_is_zero f)"
| "truthy (PStr s) = (s \<noteq> [])"
| "truthy (PList xs) = (xs \<noteq> [])"
| "truthy (PDict kvs) = (kvs \<noteq> [])"

text \<open>\<^verbatim>\<open>d.get(k, default)\<close>; only a dict has the method.\<close>

fun py_get :: "pyval \<Rightarrow> string \<Rightarrow> pyval \<Rightarrow> exn + pyval" where
  "py_get (PDict kvs) k dflt = (case map_of kvs k of None \<Rightarrow> Inr dflt | Some v \<Rightarrow> Inr v)"
| "py_get _ k dflt = Inl AttributeError"

text \<open>\<^verbatim>\<open>d[k]\<close> with a string key.\<close>

fun py_getitem :: "pyval \<Rightarrow> string \<Rightarrow> exn + pyval" where
  "py_getitem (PDict kvs) k = (case map_of kvs k of None \<Rightarrow> Inl KeyError | Some v \<Rightarrow> Inr v)"
| "py_getitem _ k = Inl TypeError"

section \<open>Strings\<close>

text \<open>
  A string is a list of bytes: ASCII, or the UTF-8 encoding of the text. The
  tests below look for ASCII text, which sits at the same places in the bytes
  as in the characters. \<^verbatim>\<open>str.lower\<close> and \<^verbatim>\<open>str.strip\<close> know all
  of Unicode and are collaborators (see \<open>env\<close>).
\<close>

definition startswith :: "string \<Rightarrow> string \<Rightarrow> bool" where
  "startswith s p = (take (length p) s = p)"

definition endswith :: "string \<Rightarrow> string \<Rightarrow> bool" where
  "endswith s p = (length p \<le> length s \<and> drop (length s - length p) s = p)"

text \<open>\<^verbatim>\<open>sub in s\<close> for two strings.\<close>

fun contains :: "string \<Rightarrow> string \<Rightarrow> bool" where
  "contains sub [] = (sub = [])"
| "contains sub (c # cs) = (startswith (c # cs) sub \<or> contains sub cs)"

text \<open>
  \<^verbatim>\<open>s[7:-3]\<close>, taken where \<open>s\<close> starts with seven ASCII characters and ends
  with three.
\<close>

definition slice_7_m3 :: "string \<Rightarrow> string" where
  "slice_7_m3 s = drop 7 (take (length s - 3) s)"

text \<open>\<^verbatim>\<open>str(n)\<close> of an int, as an f-string renders it.\<close>

fun show_nat :: "nat \<Rightarrow> string" where
  "show_nat n =
     (if n < 10 then [char_of (48 + n)]
      else show_nat (n div 10) @ [char_of (48 + n mod 10)])"

definition show_int :: "int \<Rightarrow> string" where
  "show_int i = (if i < 0 then CHR ''-'' # show_nat (nat (- i)) else show_nat (nat i))"

section \<open>Collaborators\<close>

text \<open>
  What the program calls and does not define: \<^verbatim>\<open>str.lower\<close> and
  \<^verbatim>\<open>str.strip\<close>, the similarity scorer (\<^verbatim>\<open>rapidfuzz.fuzz.ratio\<close>,
  whose double result is given as the rational it denotes), Python's float
  parser, float arithmetic and float printing, the database's case-insensitive
  regular expressions, \<^verbatim>\<open>json.loads\<close> (which raises
  \<^verbatim>\<open>JSONDecodeError\<close> on text that is not JSON, and other exceptions
  too: \<^verbatim>\<open>ValueError\<close> on an integer of more than 4300 digits,
  \<^verbatim>\<open>RecursionError\<close> on deep nesting), the agent run, the order store's
  acceptance of a write, speech synthesis and transcription, and
  \<^verbatim>\<open>str\<close> of an exception other than an \<^verbatim>\<open>HTTPException\<close>.
  \<open>None\<close> or \<open>Inl\<close> is the collaborator raising.
\<close>

record order_doc =
  tableNumber :: pyval
  items :: pyval
  totalAmount :: pyval
  timestamp :: nat

record env =
  str_lower :: "string \<Rightarrow> string"
  str_strip :: "string \<Rightarrow> string"
  scorer :: "string \<Rightarrow> string \<Rightarrow> rat"
  py_float :: "string \<Rightarrow> pyfloat option"
  float_of_int :: "int \<Rightarrow> pyfloat option"
  float_mul :: "pyfloat \<Rightarrow> pyfloat \<Rightarrow> pyfloat"
  float_add :: "pyfloat \<Rightarrow> pyfloat \<Rightarrow> pyfloat"
  float_repr :: "pyfloat \<Rightarrow> string"
  regex_i :: "string \<Rightarrow> (string \<Rightarrow> bool) option"
  json_loads :: "string \<Rightarrow> exn + pyval"
  run_agent :: "string \<Rightarrow> pyval \<Rightarrow> order_doc list \<Rightarrow> (exn + pyval) \<times> order_doc list"
  insert_error :: "order_doc \<Rightarrow> order_doc list \<Rightarrow> exn option"
  synthesize :: "pyval \<Rightarrow> exn + string"
  transcribe :: "string \<Rightarrow> exn + string"
  exc_str :: "exn \<Rightarrow> string"

section \<open>The catalog\<close>

text \<open>
  A product document as \<^verbatim>\<open>add_product\<close> writes it and
  \<^verbatim>\<open>serialize_item\<close> returns it: every field a string, the price too.
\<close>

record product =
  p_id :: string
  p_name :: string
  p_price :: string
  p_category :: string
  p_description :: string
  p_image :: string

section \<open>Resolving a spoken name (add\_to\_order\_tool, lines 235 to 250)\<close>

text \<open>
  \<^verbatim>\<open>process.extractOne(query, choices, scorer=fuzz.ratio)\<close>, for a similarity
  scorer with scores from 0 to 100: the choice with the highest score, the
  earliest one among equals, with its score and index; the scan stops at a
  perfect score of 100; no result for no choices.
\<close>

fun extract_loop ::
  "(string \<Rightarrow> rat) \<Rightarrow> (string \<times> rat \<times> nat) option \<Rightarrow> nat \<Rightarrow> string list
     \<Rightarrow> (string \<times> rat \<times> nat) option" where
  "extract_loop sc res i [] = res"
| "extract_loop sc res i (c # cs) =
     (let s = sc c in
      if (case res of None \<Rightarrow> False | Some (_, best, _) \<Rightarrow> s \<le> best)
      then extract_loop sc res (Suc i) cs
      else if s = 100 then Some (c, s, i)
      else extract_loop sc (Some (c, s, i)) (Suc i) cs)"

definition extractOne ::
  "(string \<Rightarrow> string \<Rightarrow> rat) \<Rightarrow> string \<Rightarrow> string list \<Rightarrow> (string \<times> rat \<times> nat) option" where
  "extractOne sc query choices = extract_loop (sc query) None 0 choices"

text \<open>
  Line 241: the first product whose lowercased name equals the lowercased query.
\<close>

definition exact_match :: "env \<Rightarrow> product list \<Rightarrow> string \<Rightarrow> product option" where
  "exact_match e all_products product_name =
     find (\<lambda>p. str_lower e (p_name p) = str_lower e product_name) all_products"

text \<open>
  Lines 241 to 250. The result is the product found, if any, together with the
  calls made to \<^verbatim>\<open>process.extractOne\<close> (query and choices), so that a path
  that never scores is told from one that does.
\<close>

definition resolve ::
  "env \<Rightarrow> product list \<Rightarrow> string
     \<Rightarrow> exn + (product option \<times> (string \<times> string list) list)" where
  "resolve e all_products product_name =
     (case exact_match e all_products product_name of
        Some p \<Rightarrow> Inr (Some p, [])
      | None \<Rightarrow>
          if all_products \<noteq> [] then
            (let product_names = map p_name all_products in
             case extractOne (scorer e) product_name product_names of
               None \<Rightarrow> Inl TypeError
             | Some (best_match, score, idx) \<Rightarrow>
                 if score \<ge> 70 then
                   (if idx < length all_products
                    then Inr (Some (all_products ! idx), [(product_name, product_names)])
                    else Inl IndexError)
                 else Inr (None, [(product_name, product_names)]))
          else Inr (None, []))"

text \<open>
  \<^verbatim>\<open>add_to_order_tool\<close> from the fetched menu on (a dict from category to
  products, flattened in its order).
\<close>

definition not_available :: "int \<Rightarrow> string \<Rightarrow> pyval" where
  "not_available table_number product_name =
     PDict [(''message'', PStr ('' Sorry, '' @ product_name @ '' is not available in our menu.'')),
            (''table_number'', PInt table_number),
            (''items'', PList []),
            (''total'', PInt 0),
            (''redirect'', PBool False),
            (''redirect_url'', PStr ''''),
            (''audio_url'', PStr '''')]"

definition add_to_order_tool ::
  "env \<Rightarrow> (string \<times> product list) list \<Rightarrow> int \<Rightarrow> string \<Rightarrow> int \<Rightarrow> exn + pyval" where
  "add_to_order_tool e products_data table_number product_name quantity =
     (let all_products = concat (map snd products_data) in
      case resolve e all_products product_name of
        Inl x \<Rightarrow> Inl x
      | Inr (None, _) \<Rightarrow> Inr (not_available table_number product_name)
      | Inr (Some product, _) \<Rightarrow>
          (case py_float e (p_price product) of
             None \<Rightarrow> Inl ValueError
           | Some price \<Rightarrow>
               (case float_of_int e quantity of
                  None \<Rightarrow> Inl OverflowError
                | Some q \<Rightarrow>
                    (let subtotal = float_mul e price q in
                     Inr (PDict
                       [(''message'', PStr ('' '' @ show_int quantity @ '' x '' @ p_name product
                            @ '' (Rs '' @ float_repr e price @ '' each) added to Table ''
                            @ show_int table_number @ [CHR 39] @ ''s order. Total Rs ''
                            @ float_repr e subtotal @ ''.'')),
                        (''table_number'', PInt table_number),
                        (''items'', PList [PDict
                           [(''name'', PStr (p_name product)),
                            (''quantity'', PInt quantity),
                            (''price'', PFloat price),
                            (''subtotal'', PFloat subtotal),
                            (''image'', PStr (p_image product))]]),
                        (''total'', PFloat subtotal),
                        (''redirect'', PBool True),
                        (''redirect_url'', PStr ''/order_summary''),
                        (''audio_url'', PStr ''/agent-audio?file=bdlz401o.mp3'')])))))"

section \<open>Persisting an order from the tool (place\_order)\<close>

datatype event = Transcribed string | AgentRun string pyval | Synthesized pyval

text \<open>
  The state the endpoint and the tools act on: the \<^verbatim>\<open>orders\<close> collection in
  insertion order, and the calls made to the transcriber, the agent runner and
  the speech synthesiser.
\<close>

record world =
  orders :: "order_doc list"
  events :: "event list"

text \<open>\<^verbatim>\<open>orders.insert_one(doc)\<close>: the document is appended unless the store raises.\<close>

definition insert_one :: "env \<Rightarrow> order_doc \<Rightarrow> world \<Rightarrow> exn + world" where
  "insert_one e doc w =
     (case insert_error e doc (orders w) of
        Some x \<Rightarrow> Inl x
      | None \<Rightarrow> Inr (w\<lparr>orders := orders w @ [doc]\<rparr>))"

record order_tool_item =
  it_name :: string
  it_quantity :: int

text \<open>
  Lines 302 to 304: \<^verbatim>\<open>products.find_one\<close> with the pattern
  \<^verbatim>\<open>f"^{item.name}$"\<close> and option \<^verbatim>\<open>i\<close>. The name goes into the
  pattern as it is.
\<close>

definition find_one_by_name :: "env \<Rightarrow> product list \<Rightarrow> string \<Rightarrow> exn + product option" where
  "find_one_by_name e products nm =
     (case regex_i e (''^'' @ nm @ ''$'') of
        None \<Rightarrow> Inl OperationFailure
      | Some matches \<Rightarrow> Inr (find (\<lambda>p. matches (p_name p)) products))"

text \<open>
  \<^verbatim>\<open>x + y\<close> on numbers (a bool counts as an int), as \<^verbatim>\<open>total += subtotal\<close>
  and \<^verbatim>\<open>sum\<close> from 0 compute it; an int meets a float as a float.
\<close>

fun unbool :: "pyval \<Rightarrow> pyval" where
  "unbool (PBool b) = PInt (if b then 1 else 0)"
| "unbool v = v"

fun num_add' :: "env \<Rightarrow> pyval \<Rightarrow> pyval \<Rightarrow> exn + pyval" where
  "num_add' e (PInt a) (PInt b) = Inr (PInt (a + b))"
| "num_add' e (PInt a) (PFloat y) =
     (case float_of_int e a of None \<Rightarrow> Inl OverflowError | Some x \<Rightarrow> Inr (PFloat (float_add e x y)))"
| "num_add' e (PFloat x) (PInt b) =
     (case float_of_int e b of None \<Rightarrow> Inl OverflowError | Some y \<Rightarrow> Inr (PFloat (float_add e x y)))"
| "num_add' e (PFloat x) (PFloat y) = Inr (PFloat (float_add e x y))"
| "num_add' e _ _ = Inl TypeError"

definition num_add :: "env \<Rightarrow> pyval \<Rightarrow> pyval \<Rightarrow> exn + pyval" where
  "num_add e a b = num_add' e (unbool a) (unbool b)"

text \<open>How an f-string renders the total: an int or a float.\<close>

definition format_num :: "env \<Rightarrow> pyval \<Rightarrow> string" where
  "format_num e v = (case v of PInt i \<Rightarrow> show_int i | PFloat f \<Rightarrow> float_repr e f | _ \<Rightarrow> [])"

text \<open>
  The loop of lines 301 to 321. It ends in an exception, in the early return of
  line 306, or with the validated items and the total.
\<close>

fun place_order_loop ::
  "env \<Rightarrow> product list \<Rightarrow> order_tool_item list \<Rightarrow> pyval list \<Rightarrow> pyval
     \<Rightarrow> exn + (pyval + (pyval list \<times> pyval))" where
  "place_order_loop e products [] validated_items tot = Inr (Inr (validated_items, tot))"
| "place_order_loop e products (item # rest) validated_items tot =
     (case find_one_by_name e products (it_name item) of
        Inl x \<Rightarrow> Inl x
      | Inr None \<Rightarrow>
          Inr (Inl (PDict [(''message'',
                 PStr ('' Item '' @ [CHR 39] @ it_name item @ [CHR 39] @ '' not found in menu.''))]))
      | Inr (Some product) \<Rightarrow>
          (case py_float e (p_price product) of
             None \<Rightarrow> Inl ValueError
           | Some price \<Rightarrow>
               (case float_of_int e (it_quantity item) of
                  None \<Rightarrow> Inl OverflowError
                | Some q \<Rightarrow>
                    (let subtotal = float_mul e price q;
                         validated_items' = validated_items @ [PDict
                           [(''_id'', PStr (p_id product)),
                            (''name'', PStr (p_name product)),
                            (''quantity'', PInt (it_quantity item)),
                            (''price'', PFloat price),
                            (''subtotal'', PFloat subtotal),
                            (''category'', PStr (p_category product)),
                            (''description'', PStr (p_description product)),
                            (''image'', PStr (p_image product))]]
                     in case num_add e tot (PFloat subtotal) of
                          Inl x \<Rightarrow> Inl x
                        | Inr tot' \<Rightarrow> place_order_loop e products rest validated_items' tot'))))"

definition place_order ::
  "env \<Rightarrow> product list \<Rightarrow> nat \<Rightarrow> int \<Rightarrow> order_tool_item list \<Rightarrow> world \<Rightarrow> (exn + pyval) \<times> world" where
  "place_order e products now table_number its w =
     (case place_order_loop e products its [] (PInt 0) of
        Inl x \<Rightarrow> (Inl x, w)
      | Inr (Inl early) \<Rightarrow> (Inr early, w)
      | Inr (Inr (validated_items, tot)) \<Rightarrow>
          (let order_doc = \<lparr>tableNumber = PInt table_number, items = PList validated_items,
                            totalAmount = tot, timestamp = now\<rparr>
           in case insert_one e order_doc w of
                Inl x \<Rightarrow> (Inl x, w)
              | Inr w' \<Rightarrow>
                  (Inr (PDict
                     [(''message'', PStr ('' Order confirmed & saved for Table '' @ show_int table_number
                          @ ''! Total bill Rs '' @ format_num e tot)),
                      (''success'', PBool True),
                      (''table_number'', PInt table_number),
                      (''items'', PList validated_items),
                      (''total'', tot),
                      (''redirect'', PBool True),
                      (''redirect_url'', PStr ''/order_summary'')]), w')))"

text \<open>
  The sum of the line subtotals of a stored order: every item's
  \<^verbatim>\<open>subtotal\<close>, added up from 0 with \<^verbatim>\<open>+\<close> in item order. The
  invariant says that the stored total is that sum.
\<close>

fun subtotals :: "pyval list \<Rightarrow> exn + pyval list" where
  "subtotals [] = Inr []"
| "subtotals (item # rest) =
     (case py_getitem item ''subtotal'' of
        Inl x \<Rightarrow> Inl x
      | Inr s \<Rightarrow> (case subtotals rest of Inl x \<Rightarrow> Inl x | Inr ss \<Rightarrow> Inr (s # ss)))"

fun py_sum :: "env \<Rightarrow> pyval \<Rightarrow> pyval list \<Rightarrow> exn + pyval" where
  "py_sum e acc [] = Inr acc"
| "py_sum e acc (x # xs) =
     (case num_add e acc x of Inl err \<Rightarrow> Inl err | Inr acc' \<Rightarrow> py_sum e acc' xs)"

definition sum_of_subtotals :: "env \<Rightarrow> pyval \<Rightarrow> exn + pyval" where
  "sum_of_subtotals e its =
     (case its of
        PList xs \<Rightarrow> (case subtotals xs of Inl x \<Rightarrow> Inl x | Inr ss \<Rightarrow> py_sum e (PInt 0) ss)
      | _ \<Rightarrow> Inl TypeError)"

definition total_is_sum :: "env \<Rightarrow> order_doc \<Rightarrow> bool" where
  "total_is_sum e doc = (sum_of_subtotals e (items doc) = Inr (totalAmount doc))"

section \<open>The response normalizer (ask\_agent, lines 463 to 531)\<close>

type_synonym response = "string \<Rightarrow> pyval option"

definition default_response :: response where
  "default_response =
     [''message'' \<mapsto> PStr [], ''redirect'' \<mapsto> PBool False, ''redirect_url'' \<mapsto> PNone,
      ''table_number'' \<mapsto> PNone, ''items'' \<mapsto> PList [], ''total'' \<mapsto> PInt 0]"

definition recognized_keys :: "string list" where
  "recognized_keys =
     [''message'', ''redirect'', ''redirect_url'', ''table_number'', ''items'', ''total'', ''success'']"

text \<open>The loop of lines 475 to 477 (and 487 to 489).\<close>

definition copy_fields :: "(string \<times> pyval) list \<Rightarrow> response \<Rightarrow> response" where
  "copy_fields out response_data =
     foldl (\<lambda>r key. case map_of out key of Some v \<Rightarrow> r(key \<mapsto> v) | None \<Rightarrow> r)
       response_data recognized_keys"

definition fence_open :: string where
  "fence_open = [CHR 0x60, CHR 0x60, CHR 0x60] @ ''json'' @ [CHR 0x0A]"

definition fence_close :: string where
  "fence_close = [CHR 0x0A, CHR 0x60, CHR 0x60, CHR 0x60]"

text \<open>
  Lines 473 to 493: a dict, a string (plain, or JSON, or fenced JSON), or
  anything else. Only a \<^verbatim>\<open>JSONDecodeError\<close> of \<^verbatim>\<open>json.loads\<close> is caught
  (line 492); any other exception leaves the normalizer.
\<close>

definition absorb_output :: "env \<Rightarrow> pyval \<Rightarrow> response \<Rightarrow> exn + response" where
  "absorb_output e final_output response_data =
     (case final_output of
        PDict out \<Rightarrow> Inr (copy_fields out response_data)
      | PStr s \<Rightarrow>
          (let cleaned_output = str_strip e s;
               cleaned_output' =
                 (if startswith cleaned_output fence_open \<and> endswith cleaned_output fence_close
                  then str_strip e (slice_7_m3 cleaned_output) else cleaned_output)
           in case json_loads e cleaned_output' of
                Inl x \<Rightarrow>
                  if x = JSONDecodeError then Inr (response_data(''message'' \<mapsto> PStr s))
                  else Inl x
              | Inr (PDict out) \<Rightarrow> Inr (copy_fields out response_data)
              | Inr _ \<Rightarrow> Inr (response_data(''message'' \<mapsto> PStr s)))
      | _ \<Rightarrow> Inr response_data)"

text \<open>\<^verbatim>\<open>response_data[k]\<close>.\<close>

definition lookup :: "response \<Rightarrow> string \<Rightarrow> exn + pyval" where
  "lookup r k = (case r k of None \<Rightarrow> Inl KeyError | Some v \<Rightarrow> Inr v)"

definition menu_keyword :: "string \<Rightarrow> bool" where
  "menu_keyword question_lower =
     (contains ''menu'' question_lower \<or> contains ''show menu'' question_lower
        \<or> contains ''mujhe menu'' question_lower)"

definition order_keyword :: "string \<Rightarrow> bool" where
  "order_keyword question_lower =
     (contains ''order'' question_lower \<or> contains ''order confirmation'' question_lower
        \<or> contains ''my order'' question_lower \<or> contains ''mera order'' question_lower)"

text \<open>\<^verbatim>\<open>kw and not response_data["redirect"]\<close>: the flag is read only when \<open>kw\<close> holds.\<close>

definition and_not_redirect :: "bool \<Rightarrow> response \<Rightarrow> exn + bool" where
  "and_not_redirect kw response_data =
     (if kw then (case lookup response_data ''redirect'' of
                    Inl x \<Rightarrow> Inl x
                  | Inr rd \<Rightarrow> Inr (\<not> truthy rd))
      else Inr False)"

text \<open>Lines 496 to 502.\<close>

definition force_redirect :: "string \<Rightarrow> response \<Rightarrow> exn + response" where
  "force_redirect question_lower response_data =
     (case and_not_redirect (menu_keyword question_lower) response_data of
        Inl x \<Rightarrow> Inl x
      | Inr True \<Rightarrow>
          Inr (response_data(''redirect'' \<mapsto> PBool True, ''redirect_url'' \<mapsto> PStr ''/menu''))
      | Inr False \<Rightarrow>
          (case and_not_redirect (order_keyword question_lower) response_data of
             Inl x \<Rightarrow> Inl x
           | Inr True \<Rightarrow>
               Inr (response_data(''redirect'' \<mapsto> PBool True,
                                  ''redirect_url'' \<mapsto> PStr ''/order_summary''))
           | Inr False \<Rightarrow> Inr response_data))"

text \<open>Steps 1 to 4 of the normalizer: lines 464 to 502.\<close>

definition infer_redirect :: "env \<Rightarrow> string \<Rightarrow> pyval \<Rightarrow> exn + response" where
  "infer_redirect e question final_output =
     (case absorb_output e final_output default_response of
        Inl x \<Rightarrow> Inl x
      | Inr response_data \<Rightarrow> force_redirect (str_lower e question) response_data)"

text \<open>
  Line 507: \<^verbatim>\<open>context and context.get("table_number") and context.get("items")\<close>.
\<close>

definition usable_context :: "pyval \<Rightarrow> exn + bool" where
  "usable_context context =
     (if \<not> truthy context then Inr False
      else case py_get context ''table_number'' PNone of
             Inl x \<Rightarrow> Inl x
           | Inr tn \<Rightarrow>
               if \<not> truthy tn then Inr False
               else (case py_get context ''items'' PNone of
                       Inl x \<Rightarrow> Inl x
                     | Inr its \<Rightarrow> Inr (truthy its)))"

definition confirmed_text :: string where
  "confirmed_text = '' Order confirmed and saved successfully!''"

definition clarification_text :: string where
  "clarification_text = '' Please specify both table number and items to confirm your order.''"

definition failed_text :: string where
  "failed_text = '' Failed to confirm order. Please try again.''"

text \<open>The body of the \<^verbatim>\<open>try\<close> of lines 506 to 528.\<close>

definition confirm_body ::
  "env \<Rightarrow> nat \<Rightarrow> pyval \<Rightarrow> response \<Rightarrow> world \<Rightarrow> exn + (response \<times> world)" where
  "confirm_body e now context response_data w =
     (case usable_context context of
        Inl x \<Rightarrow> Inl x
      | Inr False \<Rightarrow> Inr (response_data(''message'' \<mapsto> PStr clarification_text), w)
      | Inr True \<Rightarrow>
          (case py_getitem context ''table_number'' of
             Inl x \<Rightarrow> Inl x
           | Inr tn \<Rightarrow>
          (case py_getitem context ''items'' of
             Inl x \<Rightarrow> Inl x
           | Inr its \<Rightarrow>
          (case py_get context ''total'' (PInt 0) of
             Inl x \<Rightarrow> Inl x
           | Inr tot \<Rightarrow>
               (let saved_order = \<lparr>tableNumber = tn, items = its, totalAmount = tot,
                                   timestamp = now\<rparr>
                in case insert_one e saved_order w of
                     Inl x \<Rightarrow> Inl x
                   | Inr w' \<Rightarrow>
                       Inr (response_data
                              (''message'' \<mapsto> PStr confirmed_text,
                               ''redirect'' \<mapsto> PBool True,
                               ''redirect_url'' \<mapsto> PStr ''/order_summary'',
                               ''table_number'' \<mapsto> tableNumber saved_order,
                               ''items'' \<mapsto> items saved_order,
                               ''total'' \<mapsto> totalAmount saved_order), w'))))))"

text \<open>Lines 505 to 531: the special handling of a confirmation, with its catch-all.\<close>

definition confirm_step ::
  "env \<Rightarrow> nat \<Rightarrow> string \<Rightarrow> pyval \<Rightarrow> response \<Rightarrow> world \<Rightarrow> response \<times> world" where
  "confirm_step e now question_lower context response_data w =
     (if contains ''confirm order'' question_lower then
        (case confirm_body e now context response_data w of
           Inl x \<Rightarrow> (response_data(''message'' \<mapsto> PStr failed_text), w)
         | Inr rw \<Rightarrow> rw)
      else (response_data, w))"

definition normalize ::
  "env \<Rightarrow> nat \<Rightarrow> string \<Rightarrow> pyval \<Rightarrow> pyval \<Rightarrow> world \<Rightarrow> exn + (response \<times> world)" where
  "normalize e now question context final_output w =
     (case infer_redirect e question final_output of
        Inl x \<Rightarrow> Inl x
      | Inr response_data \<Rightarrow>
          Inr (confirm_step e now (str_lower e question) context response_data w))"

section \<open>The conversational endpoint (ask\_agent)\<close>

definition no_question :: exn where
  "no_question = HTTPException 400 ''No question or audio provided.''"

text \<open>
  The body of the outer \<^verbatim>\<open>try\<close>, lines 430 to 543. \<open>question\<close>, \<open>audio\<close> and
  \<open>order_summary\<close> are the three optional form fields.
\<close>

definition ask_agent_body ::
  "env \<Rightarrow> nat \<Rightarrow> string option \<Rightarrow> string option \<Rightarrow> string option \<Rightarrow> world
     \<Rightarrow> (exn + response) \<times> world" where
  "ask_agent_body e now question audio order_summary w =
     (case (case audio of
              None \<Rightarrow> (Inr question, w)
            | Some clip \<Rightarrow>
                (case transcribe e clip of
                   Inl x \<Rightarrow> (Inl x, w\<lparr>events := events w @ [Transcribed clip]\<rparr>)
                 | Inr text \<Rightarrow> (Inr (Some text), w\<lparr>events := events w @ [Transcribed clip]\<rparr>))) of
        (Inl x, w1) \<Rightarrow> (Inl x, w1)
      | (Inr None, w1) \<Rightarrow> (Inl no_question, w1)
      | (Inr (Some q), w1) \<Rightarrow>
          if q = [] then (Inl no_question, w1)
          else
            (case (case order_summary of
                     None \<Rightarrow> Inr PNone
                   | Some os \<Rightarrow>
                       if os = [] then Inr PNone
                       else json_loads e os) of
               Inl x \<Rightarrow> (Inl x, w1)
             | Inr context \<Rightarrow>
                 (case run_agent e q context (orders w1) of
                    (outcome, orders') \<Rightarrow>
                      (let w2 = w1\<lparr>orders := orders', events := events w1 @ [AgentRun q context]\<rparr>
                       in case outcome of
                            Inl x \<Rightarrow> (Inl x, w2)
                          | Inr final_output \<Rightarrow>
                              (case normalize e now q context final_output w2 of
                                 Inl x \<Rightarrow> (Inl x, w2)
                               | Inr (response_data, w3) \<Rightarrow>
                                   (case lookup response_data ''message'' of
                                      Inl x \<Rightarrow> (Inl x, w3)
                                    | Inr msg \<Rightarrow>
                                        if truthy msg then
                                          (let w4 = w3\<lparr>events := events w3 @ [Synthesized msg]\<rparr>
                                           in case synthesize e msg of
                                                Inl x \<Rightarrow> (Inl x, w4)
                                              | Inr file \<Rightarrow>
                                                  (Inr (response_data(''audio_url'' \<mapsto>
                                                          PStr (''/agent-audio?file='' @ file))), w4))
                                        else (Inr response_data, w3)))))))"

text \<open>
  \<^verbatim>\<open>str(e)\<close>. An \<^verbatim>\<open>HTTPException\<close> prints as its status code, a
  colon, a space and its detail (Starlette's \<^verbatim>\<open>__str__\<close>); any other
  exception as its own class has it.
\<close>

definition str_of_exn :: "env \<Rightarrow> exn \<Rightarrow> string" where
  "str_of_exn e x =
     (case x of
        HTTPException status_code detail \<Rightarrow> show_nat status_code @ '': '' @ detail
      | _ \<Rightarrow> exc_str e x)"

text \<open>
  Lines 545 to 547: whatever the body raises, an \<^verbatim>\<open>HTTPException\<close> too, is
  raised again as a 500 whose detail is \<^verbatim>\<open>str(e)\<close>.
\<close>

definition ask_agent ::
  "env \<Rightarrow> nat \<Rightarrow> string option \<Rightarrow> string option \<Rightarrow> string option \<Rightarrow> world
     \<Rightarrow> (exn + response) \<times> world" where
  "ask_agent e now question audio order_summary w =
     (case ask_agent_body e now question audio order_summary w of
        (Inl x, w') \<Rightarrow> (Inl (HTTPException 500 (str_of_exn e x)), w')
      | (Inr response_data, w') \<Rightarrow> (Inr response_data, w'))"

section \<open>Reading a result\<close>

text \<open>What the normalizer left under \<^verbatim>\<open>message\<close>, and the orders in the store.\<close>

definition message_of :: "exn + response \<times> world \<Rightarrow> exn + pyval option" where
  "message_of res = (case res of Inl x \<Rightarrow> Inl x | Inr (r, w) \<Rightarrow> Inr (r ''message''))"

definition stored_of :: "exn + response \<times> world \<Rightarrow> exn + order_doc list" where
  "stored_of res = (case res of Inl x \<Rightarrow> Inl x | Inr (r, w) \<Rightarrow> Inr (orders w))"

section \<open>Sample data\<close>

text \<open>
  Concrete collaborators and inputs on which the model is run. Lowercasing and
  stripping are those of ASCII text. The pattern matcher knows literals
  (case-insensitively) and the wildcard \<^verbatim>\<open>.\<close> between \<^verbatim>\<open>^\<close> and
  \<^verbatim>\<open>$\<close>. The float operations are stand-ins on the bit patterns. The JSON
  reader knows the empty object, refuses an integer of more than 4300 digits
  with a \<^verbatim>\<open>ValueError\<close>, and reports any other text as not JSON, which is
  right for the plain words it is given here.
\<close>

definition ascii_lower_char :: "char \<Rightarrow> char" where
  "ascii_lower_char c =
     (case map_of (zip ''ABCDEFGHIJKLMNOPQRSTUVWXYZ'' ''abcdefghijklmnopqrstuvwxyz'') c of
        Some l \<Rightarrow> l
      | None \<Rightarrow> c)"

definition ascii_lower :: "string \<Rightarrow> string" where
  "ascii_lower s = map ascii_lower_char s"

definition ascii_space :: "char \<Rightarrow> bool" where
  "ascii_space c = (c \<in> set [CHR '' '', CHR 0x09, CHR 0x0A, CHR 0x0B, CHR 0x0C, CHR 0x0D])"

definition ascii_strip :: "string \<Rightarrow> string" where
  "ascii_strip s = rev (dropWhile ascii_space (rev (dropWhile ascii_space s)))"

definition many_digits :: string where
  "many_digits = replicate 5000 CHR ''1''"

definition sample_json :: "string \<Rightarrow> exn + pyval" where
  "sample_json s =
     (if s = ''{}'' then Inr (PDict [])
      else if 4300 < length s \<and> set s \<subseteq> {CHR ''1''} then Inl ValueError
      else Inl JSONDecodeError)"

fun match_dot :: "string \<Rightarrow> string \<Rightarrow> bool" where
  "match_dot [] [] = True"
| "match_dot (p # ps) (c # cs) =
     ((p = CHR ''.'' \<or> ascii_lower_char p = ascii_lower_char c) \<and> match_dot ps cs)"
| "match_dot _ _ = False"

definition sample_regex :: "string \<Rightarrow> (string \<Rightarrow> bool) option" where
  "sample_regex pat =
     (if 2 \<le> length pat \<and> hd pat = CHR ''^'' \<and> last pat = CHR ''$''
      then Some (match_dot (butlast (tl pat))) else None)"

definition sample_env :: env where
  "sample_env =
     \<lparr>str_lower = ascii_lower,
      str_strip = ascii_strip,
      scorer = (\<lambda>q c. if ascii_lower c = ''pizza'' then 80 else 10),
      py_float = (\<lambda>s. if s = ''10'' then Some 10 else None),
      float_of_int = (\<lambda>i. Some (word_of_int i)),
      float_mul = (\<lambda>a b. a * b),
      float_add = (\<lambda>a b. a + b),
      float_repr = (\<lambda>f. ''float''),
      regex_i = sample_regex,
      json_loads = sample_json,
      run_agent = (\<lambda>q c os. (Inr (PStr ''ok''), os)),
      insert_error = (\<lambda>d os. None),
      synthesize = (\<lambda>m. Inr ''speech.mp3''),
      transcribe = (\<lambda>clip. Inr ''hello''),
      exc_str = (\<lambda>x. ''error'')\<rparr>"

definition pizza :: product where
  "pizza = \<lparr>p_id = ''p1'', p_name = ''Pizza'', p_price = ''10'', p_category = ''Main'',
            p_description = ''Cheese pizza'', p_image = ''pizza.png''\<rparr>"

definition burger :: product where
  "burger = \<lparr>p_id = ''p2'', p_name = ''Burger'', p_price = ''10'', p_category = ''Main'',
             p_description = ''Beef burger'', p_image = ''burger.png''\<rparr>"

definition empty_world :: world where
  "empty_world = \<lparr>orders = [], events = []\<rparr>"

text \<open>The context of the specification's example, and one whose total is not the sum.\<close>

definition sample_items :: pyval where
  "sample_items =
     PList [PDict [(''name'', PStr ''Pizza''), (''quantity'', PInt 2), (''price'', PInt 10)]]"

definition sample_context :: pyval where
  "sample_context =
     PDict [(''table_number'', PStr ''5''), (''items'', sample_items), (''total'', PInt 20)]"

definition priced_items :: pyval where
  "priced_items =
     PList [PDict [(''name'', PStr ''Pizza''), (''quantity'', PInt 2), (''price'', PInt 10),
                   (''subtotal'', PInt 20)]]"

definition inflated_context :: pyval where
  "inflated_context =
     PDict [(''table_number'', PStr ''5''), (''items'', priced_items), (''total'', PInt 999)]"

text \<open>A context that is not a dict, and one whose items are not a list.\<close>

definition list_context :: pyval where
  "list_context = PList [PInt 1]"

definition odd_context :: pyval where
  "odd_context = PDict [(''table_number'', PInt 5), (''items'', PInt 7)]"

definition odd_doc :: order_doc where
  "odd_doc = \<lparr>tableNumber = PInt 5, items = PInt 7, totalAmount = PInt 0, timestamp = 0\<rparr>"

definition inflated_doc :: order_doc where
  "inflated_doc = \<lparr>tableNumber = PStr ''5'', items = priced_items, totalAmount = PInt 999,
                   timestamp = 0\<rparr>"

section \<open>The resolver: proofs\<close>

subsection \<open>What extractOne returns\<close>

lemma extract_loop_Some:
  "extract_loop sc (Some r) i cs \<noteq> None"
  by (induction cs arbitrary: r i) (auto simp: Let_def)

text \<open>
  Scanning on from a current best below 100, with every score at most 100:
  either nothing beats the current best, or the result is the first choice that
  reaches the highest score.
\<close>

lemma extract_loop_from_Some:
  assumes "\<forall>c\<in>set cs. sc c \<le> 100" "b < 100"
  shows "(extract_loop sc (Some (c0, b, j)) i cs = Some (c0, b, j) \<and> (\<forall>c\<in>set cs. sc c \<le> b))
       \<or> (\<exists>pre c' post. cs = pre @ c' # post
            \<and> extract_loop sc (Some (c0, b, j)) i cs = Some (c', sc c', i + length pre)
            \<and> b < sc c' \<and> (\<forall>x\<in>set pre. sc x < sc c') \<and> (\<forall>x\<in>set post. sc x \<le> sc c'))"
  using assms
proof (induction cs arbitrary: c0 b j i)
  case Nil
  then show ?case by simp
next
  case (Cons c cs)
  have le: "\<forall>x\<in>set cs. sc x \<le> 100" using Cons.prems by simp
  show ?case
  proof (cases "sc c \<le> b")
    case True
    from Cons.IH[OF le Cons.prems(2), of c0 j "Suc i"]
    show ?thesis
    proof
      assume "extract_loop sc (Some (c0, b, j)) (Suc i) cs = Some (c0, b, j) \<and> (\<forall>c\<in>set cs. sc c \<le> b)"
      then show ?thesis using True by simp
    next
      assume "\<exists>pre c' post. cs = pre @ c' # post
            \<and> extract_loop sc (Some (c0, b, j)) (Suc i) cs = Some (c', sc c', Suc i + length pre)
            \<and> b < sc c' \<and> (\<forall>x\<in>set pre. sc x < sc c') \<and> (\<forall>x\<in>set post. sc x \<le> sc c')"
      then obtain pre c' post where h: "cs = pre @ c' # post"
        "extract_loop sc (Some (c0, b, j)) (Suc i) cs = Some (c', sc c', Suc i + length pre)"
        "b < sc c'" "\<forall>x\<in>set pre. sc x < sc c'" "\<forall>x\<in>set post. sc x \<le> sc c'"
        by blast
      have "c # cs = (c # pre) @ c' # post" using h(1) by simp
      moreover have "extract_loop sc (Some (c0, b, j)) i (c # cs) = Some (c', sc c', i + length (c # pre))"
        using h(2) True by simp
      moreover have "\<forall>x\<in>set (c # pre). sc x < sc c'" using h(3,4) True by auto
      ultimately show ?thesis using h(3,5) by blast
    qed
  next
    case False
    then have gt: "b < sc c" by simp
    show ?thesis
    proof (cases "sc c = 100")
      case True
      have "c # cs = [] @ c # cs" by simp
      moreover have "extract_loop sc (Some (c0, b, j)) i (c # cs) = Some (c, sc c, i + length ([]::string list))"
        using False True by simp
      moreover have "\<forall>x\<in>set cs. sc x \<le> sc c" using le True by simp
      ultimately show ?thesis using gt by (metis empty_iff list.set(1))
    next
      case ne: False
      have lt: "sc c < 100" using Cons.prems(1) ne by auto
      have step: "extract_loop sc (Some (c0, b, j)) i (c # cs) = extract_loop sc (Some (c, sc c, i)) (Suc i) cs"
        using False ne by simp
      from Cons.IH[OF le lt, of c i "Suc i"]
      show ?thesis
      proof
        assume a: "extract_loop sc (Some (c, sc c, i)) (Suc i) cs = Some (c, sc c, i) \<and> (\<forall>x\<in>set cs. sc x \<le> sc c)"
        have "c # cs = [] @ c # cs" by simp
        moreover have "extract_loop sc (Some (c0, b, j)) i (c # cs) = Some (c, sc c, i + length ([]::string list))"
          using step a by simp
        ultimately show ?thesis using gt a by (metis empty_iff list.set(1))
      next
        assume "\<exists>pre c' post. cs = pre @ c' # post
            \<and> extract_loop sc (Some (c, sc c, i)) (Suc i) cs = Some (c', sc c', Suc i + length pre)
            \<and> sc c < sc c' \<and> (\<forall>x\<in>set pre. sc x < sc c') \<and> (\<forall>x\<in>set post. sc x \<le> sc c')"
        then obtain pre c' post where h: "cs = pre @ c' # post"
          "extract_loop sc (Some (c, sc c, i)) (Suc i) cs = Some (c', sc c', Suc i + length pre)"
          "sc c < sc c'" "\<forall>x\<in>set pre. sc x < sc c'" "\<forall>x\<in>set post. sc x \<le> sc c'"
          by blast
        have "c # cs = (c # pre) @ c' # post" using h(1) by simp
        moreover have "extract_loop sc (Some (c0, b, j)) i (c # cs) = Some (c', sc c', i + length (c # pre))"
          using h(2) step by simp
        moreover have "\<forall>x\<in>set (c # pre). sc x < sc c'" using h(3,4) by auto
        moreover have "b < sc c'" using gt h(3) by simp
        ultimately show ?thesis using h(5) by blast
      qed
    qed
  qed
qed

lemma extract_loop_from_None:
  assumes "\<forall>c\<in>set cs. sc c \<le> 100" "cs \<noteq> []"
  shows "\<exists>pre c' post. cs = pre @ c' # post
            \<and> extract_loop sc None 0 cs = Some (c', sc c', length pre)
            \<and> (\<forall>x\<in>set pre. sc x < sc c') \<and> (\<forall>x\<in>set post. sc x \<le> sc c')"
proof -
  obtain c rest where cs: "cs = c # rest" using assms(2) by (cases cs) auto
  have le: "\<forall>x\<in>set rest. sc x \<le> 100" using assms(1) cs by simp
  show ?thesis
  proof (cases "sc c = 100")
    case True
    have "extract_loop sc None 0 cs = Some (c, sc c, length ([]::string list))"
      using cs True by simp
    moreover have "cs = [] @ c # rest" using cs by simp
    moreover have "\<forall>x\<in>set rest. sc x \<le> sc c" using le True by simp
    ultimately show ?thesis by (metis empty_iff list.set(1))
  next
    case False
    then have lt: "sc c < 100" using assms(1) cs by auto
    have step: "extract_loop sc None 0 cs = extract_loop sc (Some (c, sc c, 0)) (Suc 0) rest"
      using cs False by simp
    from extract_loop_from_Some[OF le lt, of c 0 "Suc 0"]
    show ?thesis
    proof
      assume a: "extract_loop sc (Some (c, sc c, 0)) (Suc 0) rest = Some (c, sc c, 0) \<and> (\<forall>x\<in>set rest. sc x \<le> sc c)"
      have "extract_loop sc None 0 cs = Some (c, sc c, length ([]::string list))"
        using step a by simp
      moreover have "cs = [] @ c # rest" using cs by simp
      ultimately show ?thesis using a by (metis empty_iff list.set(1))
    next
      assume "\<exists>pre c' post. rest = pre @ c' # post
            \<and> extract_loop sc (Some (c, sc c, 0)) (Suc 0) rest = Some (c', sc c', Suc 0 + length pre)
            \<and> sc c < sc c' \<and> (\<forall>x\<in>set pre. sc x < sc c') \<and> (\<forall>x\<in>set post. sc x \<le> sc c')"
      then obtain pre c' post where h: "rest = pre @ c' # post"
          "extract_loop sc (Some (c, sc c, 0)) (Suc 0) rest = Some (c', sc c', Suc 0 + length pre)"
          "sc c < sc c'" "\<forall>x\<in>set pre. sc x < sc c'" "\<forall>x\<in>set post. sc x \<le> sc c'"
        by blast
      have "cs = (c # pre) @ c' # post" using h(1) cs by simp
      moreover have "extract_loop sc None 0 cs = Some (c', sc c', length (c # pre))"
        using h(2) step by simp
      moreover have "\<forall>x\<in>set (c # pre). sc x < sc c'" using h(3,4) by auto
      ultimately show ?thesis using h(5) by blast
    qed
  qed
qed

text \<open>
  Whatever the scores are, the index returned is that of the returned choice.
\<close>

lemma extract_loop_index:
  "extract_loop sc res i cs = Some (c, s, k) \<Longrightarrow>
     (res = Some (c, s, k)) \<or> (\<exists>n<length cs. k = i + n \<and> c = cs ! n \<and> s = sc c)"
proof (induction cs arbitrary: res i)
  case Nil
  then show ?case by simp
next
  case (Cons a cs)
  show ?case
  proof (cases "case res of None \<Rightarrow> False | Some (_, best, _) \<Rightarrow> sc a \<le> best")
    case True
    then have "extract_loop sc res (Suc i) cs = Some (c, s, k)" using Cons.prems by simp
    from Cons.IH[OF this] show ?thesis
    proof
      assume "res = Some (c, s, k)" then show ?thesis by simp
    next
      assume "\<exists>n<length cs. k = Suc i + n \<and> c = cs ! n \<and> s = sc c"
      then obtain n where "n < length cs" "k = Suc i + n" "c = cs ! n" "s = sc c" by blast
      then have "Suc n < length (a # cs) \<and> k = i + Suc n \<and> c = (a # cs) ! Suc n \<and> s = sc c" by simp
      then show ?thesis by blast
    qed
  next
    case False
    show ?thesis
    proof (cases "sc a = 100")
      case True
      then have "Some (a, sc a, i) = Some (c, s, k)" using False Cons.prems
        by (cases res) (auto simp: Let_def)
      then have "0 < length (a # cs) \<and> k = i + 0 \<and> c = (a # cs) ! 0 \<and> s = sc c" by auto
      then show ?thesis by blast
    next
      case ne: False
      then have "extract_loop sc (Some (a, sc a, i)) (Suc i) cs = Some (c, s, k)"
        using False Cons.prems by simp
      from Cons.IH[OF this] show ?thesis
      proof
        assume "Some (a, sc a, i) = Some (c, s, k)"
        then have "0 < length (a # cs) \<and> k = i + 0 \<and> c = (a # cs) ! 0 \<and> s = sc c" by auto
        then show ?thesis by blast
      next
        assume "\<exists>n<length cs. k = Suc i + n \<and> c = cs ! n \<and> s = sc c"
        then obtain n where "n < length cs" "k = Suc i + n" "c = cs ! n" "s = sc c" by blast
        then have "Suc n < length (a # cs) \<and> k = i + Suc n \<and> c = (a # cs) ! Suc n \<and> s = sc c" by simp
        then show ?thesis by blast
      qed
    qed
  qed
qed

lemma extract_loop_nonempty: "cs \<noteq> [] \<Longrightarrow> extract_loop sc None i cs \<noteq> None"
proof (cases cs)
  case Nil
  assume "cs \<noteq> []" with Nil show ?thesis by simp
next
  case (Cons a list)
  show ?thesis
  proof (cases "sc a = 100")
    case True
    then show ?thesis using Cons by simp
  next
    case False
    then show ?thesis using Cons extract_loop_Some[of sc "(a, sc a, i)" "Suc i" list] by simp
  qed
qed

lemma find_split:
  "\<exists>x\<in>set xs. P x \<Longrightarrow>
     \<exists>pre x post. xs = pre @ x # post \<and> P x \<and> (\<forall>y\<in>set pre. \<not> P y) \<and> find P xs = Some x"
proof (induction xs)
  case Nil
  then show ?case by simp
next
  case (Cons a xs)
  show ?case
  proof (cases "P a")
    case True
    then have "a # xs = [] @ a # xs \<and> P a \<and> (\<forall>y\<in>set []. \<not> P y) \<and> find P (a # xs) = Some a"
      by simp
    then show ?thesis by blast
  next
    case False
    then have "\<exists>x\<in>set xs. P x" using Cons.prems by auto
    from Cons.IH[OF this] obtain pre x post where
      h: "xs = pre @ x # post" "P x" "\<forall>y\<in>set pre. \<not> P y" "find P xs = Some x" by blast
    have "a # xs = (a # pre) @ x # post \<and> P x \<and> (\<forall>y\<in>set (a # pre). \<not> P y) \<and> find P (a # xs) = Some x"
      using h False by simp
    then show ?thesis by blast
  qed
qed

lemma find_None_all: "(find P xs = None) = (\<forall>x\<in>set xs. \<not> P x)"
  by (induction xs) auto

text \<open>
  The unpacking of line 246 and the indexing of line 250 never fail.
\<close>

lemma resolve_never_raises: "\<exists>r calls. resolve e ps q = Inr (r, calls)"
proof (cases "exact_match e ps q")
  case (Some p)
  then show ?thesis by (simp add: resolve_def)
next
  case None
  show ?thesis
  proof (cases "ps = []")
    case True
    then show ?thesis using None by (simp add: resolve_def)
  next
    case False
    then have ne: "map p_name ps \<noteq> []" by simp
    from extract_loop_nonempty[OF ne, of "scorer e q" 0]
    obtain c s k where r: "extract_loop (scorer e q) None 0 (map p_name ps) = Some (c, s, k)"
      by (cases "extract_loop (scorer e q) None 0 (map p_name ps)") auto
    from extract_loop_index[OF r] have k: "k < length ps" by auto
    show ?thesis using None False r k
      by (simp add: resolve_def extractOne_def Let_def)
  qed
qed

subsection \<open>The sample collaborators at work\<close>

lemma sample_env_fields:
  "str_lower sample_env = ascii_lower"
  "str_strip sample_env = ascii_strip"
  "scorer sample_env q c = (if ascii_lower c = ''pizza'' then 80 else 10)"
  "py_float sample_env s = (if s = ''10'' then Some 10 else None)"
  "float_of_int sample_env i = Some (word_of_int i)"
  "float_mul sample_env a b = a * b"
  "float_add sample_env a b = a + b"
  "float_repr sample_env f = ''float''"
  "regex_i sample_env = sample_regex"
  "json_loads sample_env = sample_json"
  "run_agent sample_env q' ctx os = (Inr (PStr ''ok''), os)"
  "insert_error sample_env d os = None"
  "synthesize sample_env m = Inr ''speech.mp3''"
  "transcribe sample_env clip = Inr ''hello''"
  by (simp_all add: sample_env_def)

lemma pizza_fields:
  "p_id pizza = ''p1''" "p_name pizza = ''Pizza''" "p_price pizza = ''10''"
  "p_category pizza = ''Main''" "p_description pizza = ''Cheese pizza''"
  "p_image pizza = ''pizza.png''"
  by (simp_all add: pizza_def)

lemma burger_fields:
  "p_name burger = ''Burger''"
  by (simp_all add: burger_def)

lemma sample_absorb_text:
  "absorb_output sample_env (PStr ''ok'') default_response
     = Inr (default_response(''message'' \<mapsto> PStr ''ok''))"
  "absorb_output sample_env (PStr ''done'') default_response
     = Inr (default_response(''message'' \<mapsto> PStr ''done''))"
  "absorb_output sample_env (PStr ''Here you go'') default_response
     = Inr (default_response(''message'' \<mapsto> PStr ''Here you go''))"
  by (simp_all add: absorb_output_def sample_env_fields Let_def ascii_strip_def ascii_space_def
        startswith_def fence_open_def sample_json_def)

lemma many_digits_Cons: "many_digits = CHR ''1'' # replicate 4999 CHR ''1''"
proof -
  have "(5000::nat) = Suc 4999" by simp
  then show ?thesis unfolding many_digits_def by (simp only: replicate_Suc)
qed

text \<open>
  An agent output of 5000 digits: \<^verbatim>\<open>json.loads\<close> raises
  \<^verbatim>\<open>ValueError\<close>, which line 492 does not catch.
\<close>

lemma sample_absorb_digits:
  "absorb_output sample_env (PStr many_digits) default_response = Inl ValueError"
proof -
  have s: "ascii_strip many_digits = many_digits"
    by (simp add: ascii_strip_def many_digits_def ascii_space_def)
  have f: "\<not> startswith many_digits fence_open"
    by (simp add: startswith_def fence_open_def many_digits_Cons)
  have j: "sample_json many_digits = Inl ValueError"
    by (simp add: sample_json_def many_digits_Cons)
  show ?thesis
    by (simp add: absorb_output_def sample_env_fields Let_def s f j)
qed

lemma sample_question: "contains ''confirm order'' (str_lower sample_env ''confirm order'')"
  by (simp add: sample_env_fields ascii_lower_def ascii_lower_char_def startswith_def)

subsection \<open>The fuzzy path\<close>

text \<open>
  Claim C3. When no candidate name equals the query case-insensitively (under
  \<^verbatim>\<open>str.lower\<close>), and the scorer stays within its range from 0 to 100,
  the resolver hands the query and every candidate name to
  \<^verbatim>\<open>process.extractOne\<close> (unless there is no candidate at all) and
  answers in one of three ways: not found for an empty candidate list; not
  found when every candidate scores below 70; otherwise the candidate with the
  highest score, the first one in candidate order among equals, and that score
  is at least 70.
\<close>

theorem resolve_fuzzy:
  assumes "\<forall>p\<in>set ps. str_lower e (p_name p) \<noteq> str_lower e q"
      and "\<forall>p\<in>set ps. 0 \<le> scorer e q (p_name p) \<and> scorer e q (p_name p) \<le> 100"
  shows "(ps = [] \<and> resolve e ps q = Inr (None, []))
       \<or> (ps \<noteq> [] \<and> (\<forall>p\<in>set ps. scorer e q (p_name p) < 70)
            \<and> resolve e ps q = Inr (None, [(q, map p_name ps)]))
       \<or> (\<exists>pre p post. ps = pre @ p # post \<and> 70 \<le> scorer e q (p_name p)
            \<and> (\<forall>x\<in>set pre. scorer e q (p_name x) < scorer e q (p_name p))
            \<and> (\<forall>x\<in>set post. scorer e q (p_name x) \<le> scorer e q (p_name p))
            \<and> resolve e ps q = Inr (Some p, [(q, map p_name ps)]))"
proof -
  have none: "exact_match e ps q = None"
    using assms(1) by (simp add: exact_match_def find_None_all)
  show ?thesis
  proof (cases "ps = []")
    case True
    then show ?thesis using none by (simp add: resolve_def)
  next
    case False
    then have ne: "map p_name ps \<noteq> []" by simp
    have le: "\<forall>c\<in>set (map p_name ps). scorer e q c \<le> 100" using assms(2) by simp
    from extract_loop_from_None[OF le ne]
    obtain pre' c' post' where h: "map p_name ps = pre' @ c' # post'"
      "extract_loop (scorer e q) None 0 (map p_name ps) = Some (c', scorer e q c', length pre')"
      "\<forall>x\<in>set pre'. scorer e q x < scorer e q c'" "\<forall>x\<in>set post'. scorer e q x \<le> scorer e q c'"
      by blast
    from h(1) obtain pre p post where sp: "ps = pre @ p # post" "pre' = map p_name pre"
      "c' = p_name p" "post' = map p_name post"
      by (auto simp: map_eq_append_conv append_eq_map_conv Cons_eq_map_conv)
    have idx: "length pre' < length ps" "ps ! length pre' = p"
      using sp by simp_all
    have pre_lt: "\<forall>x\<in>set pre. scorer e q (p_name x) < scorer e q (p_name p)" using h(3) sp by simp
    have post_le: "\<forall>x\<in>set post. scorer e q (p_name x) \<le> scorer e q (p_name p)" using h(4) sp by simp
    show ?thesis
    proof (cases "70 \<le> scorer e q (p_name p)")
      case True
      have "resolve e ps q = Inr (Some p, [(q, map p_name ps)])"
        using none False h(2) sp(3) idx True by (simp add: resolve_def extractOne_def Let_def)
      then show ?thesis using sp(1) True pre_lt post_le by blast
    next
      case below: False
      have "resolve e ps q = Inr (None, [(q, map p_name ps)])"
        using none False h(2) sp(3) below by (simp add: resolve_def extractOne_def Let_def)
      moreover have "\<forall>x\<in>set ps. scorer e q (p_name x) < 70"
        using below pre_lt post_le sp(1) by fastforce
      ultimately show ?thesis using False by blast
    qed
  qed
qed

theorem resolve_fuzzy_witness:
  "resolve sample_env [burger, pizza] ''piza''
     = Inr (Some pizza, [(''piza'', [''Burger'', ''Pizza''])])
   \<and> ((([burger, pizza] = [] \<and> resolve sample_env [burger, pizza] ''piza'' = Inr (None, []))
       \<or> ([burger, pizza] \<noteq> [] \<and> (\<forall>p\<in>set [burger, pizza]. scorer sample_env ''piza'' (p_name p) < 70)
            \<and> resolve sample_env [burger, pizza] ''piza''
                 = Inr (None, [(''piza'', map p_name [burger, pizza])]))
       \<or> (\<exists>pre p post. [burger, pizza] = pre @ p # post \<and> 70 \<le> scorer sample_env ''piza'' (p_name p)
            \<and> (\<forall>x\<in>set pre. scorer sample_env ''piza'' (p_name x) < scorer sample_env ''piza'' (p_name p))
            \<and> (\<forall>x\<in>set post. scorer sample_env ''piza'' (p_name x) \<le> scorer sample_env ''piza'' (p_name p))
            \<and> resolve sample_env [burger, pizza] ''piza''
                 = Inr (Some p, [(''piza'', map p_name [burger, pizza])]))))"
proof -
  have h1: "\<forall>p\<in>set [burger, pizza]. str_lower sample_env (p_name p) \<noteq> str_lower sample_env ''piza''"
    by (simp add: sample_env_fields burger_fields pizza_fields ascii_lower_def ascii_lower_char_def)
  have h2: "\<forall>p\<in>set [burger, pizza]. 0 \<le> scorer sample_env ''piza'' (p_name p)
                \<and> scorer sample_env ''piza'' (p_name p) \<le> 100"
    by (simp add: sample_env_fields)
  have v: "resolve sample_env [burger, pizza] ''piza''
     = Inr (Some pizza, [(''piza'', [''Burger'', ''Pizza''])])"
    by (simp add: resolve_def exact_match_def extractOne_def sample_env_fields burger_fields
          pizza_fields ascii_lower_def ascii_lower_char_def)
  show ?thesis
    using v resolve_fuzzy[where ps = "[burger, pizza]" and q = "''piza''"
        and e = sample_env, OF h1 h2]
    by blast
qed

subsection \<open>The exact path\<close>

text \<open>
  Claim C4. When some candidate name equals the query case-insensitively, that
  is, their \<^verbatim>\<open>str.lower\<close> forms are equal, whatever \<^verbatim>\<open>str.lower\<close>
  does to the characters, the resolver returns the first such candidate in
  input order, for every scorer, and makes no call to
  \<^verbatim>\<open>process.extractOne\<close>.
\<close>

theorem resolve_exact:
  assumes "p \<in> set ps" and "str_lower e (p_name p) = str_lower e q"
  shows "\<exists>pre p' post. ps = pre @ p' # post \<and> str_lower e (p_name p') = str_lower e q
           \<and> (\<forall>x\<in>set pre. str_lower e (p_name x) \<noteq> str_lower e q)
           \<and> resolve e ps q = Inr (Some p', [])"
proof -
  have "\<exists>x\<in>set ps. str_lower e (p_name x) = str_lower e q" using assms by blast
  from find_split[OF this] obtain pre p' post where
    h: "ps = pre @ p' # post" "str_lower e (p_name p') = str_lower e q"
       "\<forall>y\<in>set pre. str_lower e (p_name y) \<noteq> str_lower e q"
       "find (\<lambda>x. str_lower e (p_name x) = str_lower e q) ps = Some p'"
    by blast
  have "resolve e ps q = Inr (Some p', [])"
    using h(4) by (simp add: resolve_def exact_match_def)
  then show ?thesis using h(1,2,3) by blast
qed

theorem resolve_exact_witness:
  "\<exists>pre p' post. [burger, pizza] = pre @ p' # post
           \<and> str_lower sample_env (p_name p') = str_lower sample_env ''PIZZA''
           \<and> (\<forall>x\<in>set pre. str_lower sample_env (p_name x) \<noteq> str_lower sample_env ''PIZZA'')
           \<and> resolve sample_env [burger, pizza] ''PIZZA'' = Inr (Some p', [])"
proof -
  have h1: "pizza \<in> set [burger, pizza]" by simp
  have h2: "str_lower sample_env (p_name pizza) = str_lower sample_env ''PIZZA''"
    by (simp add: sample_env_fields pizza_fields ascii_lower_def ascii_lower_char_def)
  show ?thesis using resolve_exact[OF h1 h2] .
qed

subsection \<open>An item that cannot be resolved\<close>

lemma startswith_append: "startswith (sub @ b) sub"
  by (simp add: startswith_def)

lemma contains_prefix: "contains sub (sub @ b)"
proof (cases "sub @ b")
  case Nil
  then show ?thesis by simp
next
  case (Cons c cs)
  have "startswith (c # cs) sub" using startswith_append[of sub b] Cons by simp
  then show ?thesis using Cons by simp
qed

lemma contains_append: "contains sub (a @ sub @ b)"
  by (induction a) (auto simp: contains_prefix)

text \<open>
  Claim C5. When the resolver finds no product for the requested name,
  \<^verbatim>\<open>add_to_order_tool\<close> returns (it does not raise) the result of lines
  253 to 261: its message contains the requested name, its item list is empty
  and its total is 0.
\<close>

theorem add_to_order_not_found:
  assumes "\<forall>p calls. resolve e (concat (map snd products_data)) product_name \<noteq> Inr (Some p, calls)"
  shows "add_to_order_tool e products_data table_number product_name quantity
           = Inr (not_available table_number product_name)
       \<and> py_getitem (not_available table_number product_name) ''items'' = Inr (PList [])
       \<and> py_getitem (not_available table_number product_name) ''total'' = Inr (PInt 0)
       \<and> (\<exists>m. py_getitem (not_available table_number product_name) ''message'' = Inr (PStr m)
              \<and> contains product_name m)"
proof -
  obtain r calls where r: "resolve e (concat (map snd products_data)) product_name = Inr (r, calls)"
    using resolve_never_raises by blast
  have "r = None" using assms r by (cases r) auto
  then have "add_to_order_tool e products_data table_number product_name quantity
           = Inr (not_available table_number product_name)"
    using r by (simp add: add_to_order_tool_def)
  moreover have "contains product_name ('' Sorry, '' @ product_name @ '' is not available in our menu.'')"
    by (rule contains_append)
  ultimately show ?thesis by (simp add: not_available_def)
qed

theorem add_to_order_not_found_witness:
  "add_to_order_tool sample_env [(''Main'', [burger])] 5 ''Sushi'' 2
           = Inr (not_available 5 ''Sushi'')
       \<and> py_getitem (not_available 5 ''Sushi'') ''items'' = Inr (PList [])
       \<and> py_getitem (not_available 5 ''Sushi'') ''total'' = Inr (PInt 0)
       \<and> (\<exists>m. py_getitem (not_available 5 ''Sushi'') ''message'' = Inr (PStr m)
              \<and> contains ''Sushi'' m)"
proof -
  have "resolve sample_env (concat (map snd [(''Main'', [burger])])) ''Sushi''
          = Inr (None, [(''Sushi'', [''Burger''])])"
    by (simp add: resolve_def exact_match_def extractOne_def sample_env_fields burger_fields
          ascii_lower_def ascii_lower_char_def)
  then have h: "\<forall>p calls. resolve sample_env (concat (map snd [(''Main'', [burger])])) ''Sushi''
           \<noteq> Inr (Some p, calls)" by simp
  show ?thesis using add_to_order_not_found[OF h] .
qed

section \<open>The normalizer: proofs\<close>

subsection \<open>Field copy\<close>

lemma foldl_copy:
  "foldl (\<lambda>r key. case map_of out key of Some v \<Rightarrow> r(key \<mapsto> v) | None \<Rightarrow> r) r ks k
     = (if k \<in> set ks \<and> map_of out k \<noteq> None then map_of out k else r k)"
  by (induction ks arbitrary: r) (auto split: option.splits)

lemma copy_fields_apply:
  "copy_fields out r k
     = (if k \<in> set recognized_keys \<and> map_of out k \<noteq> None then map_of out k else r k)"
  unfolding copy_fields_def by (rule foldl_copy)

lemma copy_fields_present: "r k \<noteq> None \<Longrightarrow> copy_fields out r k \<noteq> None"
  by (simp add: copy_fields_apply)

text \<open>
  When steps 2 and 3 return, the response is the one they were given, or a
  field copy into it, or it with a new message.
\<close>

lemma absorb_output_cases:
  assumes "absorb_output e fo r = Inr r'"
  shows "r' = r \<or> (\<exists>out. r' = copy_fields out r) \<or> (\<exists>s. r' = r(''message'' \<mapsto> PStr s))"
proof (cases fo)
  case (PDict out)
  then show ?thesis using assms by (auto simp: absorb_output_def)
next
  case (PStr s)
  define c where "c = (if startswith (str_strip e s) fence_open \<and> endswith (str_strip e s) fence_close
                  then str_strip e (slice_7_m3 (str_strip e s)) else str_strip e s)"
  have eq: "absorb_output e fo r =
      (case json_loads e c of
         Inl x \<Rightarrow> if x = JSONDecodeError then Inr (r(''message'' \<mapsto> PStr s)) else Inl x
       | Inr (PDict out) \<Rightarrow> Inr (copy_fields out r)
       | Inr _ \<Rightarrow> Inr (r(''message'' \<mapsto> PStr s)))"
    by (simp add: absorb_output_def PStr Let_def c_def)
  show ?thesis
  proof (cases "json_loads e c")
    case (Inl x)
    then show ?thesis using eq assms by (auto split: if_splits)
  next
    case (Inr v)
    then show ?thesis using eq assms by (cases v) auto
  qed
qed (use assms in \<open>auto simp: absorb_output_def\<close>)

lemma absorb_output_present:
  assumes "absorb_output e fo r = Inr r'" and "r k \<noteq> None"
  shows "r' k \<noteq> None"
  using absorb_output_cases[OF assms(1)] assms(2) copy_fields_present by auto

lemma default_redirect: "default_response ''redirect'' = Some (PBool False)"
  by (simp add: default_response_def)

lemma absorbed_redirect:
  assumes "absorb_output e fo default_response = Inr r1"
  shows "\<exists>rd. r1 ''redirect'' = Some rd"
  using absorb_output_present[OF assms, of "''redirect''"] default_redirect by auto

text \<open>
  Claim C9. For a dict output the field copy returns, and the canonical
  response after it has a value under a key exactly when the key is one of the
  seven recognized ones and either the output has it (then the output's value
  is taken) or the default response has it (then the default stays): keys the
  output has beyond the recognized ones are dropped. The defaults are an empty
  message, redirect false, no redirect_url, no table_number, no items, total 0,
  and no success field.
\<close>

theorem copy_recognized_only:
  "absorb_output e (PDict out) default_response = Inr (copy_fields out default_response)
   \<and> (\<forall>k. copy_fields out default_response k =
        (if k \<in> set recognized_keys
         then (case map_of out k of Some v \<Rightarrow> Some v | None \<Rightarrow> default_response k)
         else None))
   \<and> default_response ''message'' = Some (PStr '''')
   \<and> default_response ''redirect'' = Some (PBool False)
   \<and> default_response ''redirect_url'' = Some PNone
   \<and> default_response ''table_number'' = Some PNone
   \<and> default_response ''items'' = Some (PList [])
   \<and> default_response ''total'' = Some (PInt 0)
   \<and> default_response ''success'' = None"
proof -
  have unrec: "\<And>k. k \<notin> set recognized_keys \<Longrightarrow> default_response k = None"
    by (simp add: recognized_keys_def default_response_def)
  have "\<And>k. copy_fields out default_response k =
        (if k \<in> set recognized_keys
         then (case map_of out k of Some v \<Rightarrow> Some v | None \<Rightarrow> default_response k)
         else None)"
    using unrec by (auto simp: copy_fields_apply split: option.splits)
  moreover have "absorb_output e (PDict out) default_response = Inr (copy_fields out default_response)"
    by (simp add: absorb_output_def)
  ultimately show ?thesis by (simp add: default_response_def)
qed

theorem copy_recognized_only_witness:
  "absorb_output sample_env (PDict [(''message'', PStr ''hi''), (''debug'', PInt 1)]) default_response
     = Inr (copy_fields [(''message'', PStr ''hi''), (''debug'', PInt 1)] default_response)
   \<and> copy_fields [(''message'', PStr ''hi''), (''debug'', PInt 1)] default_response ''debug'' = None
   \<and> copy_fields [(''message'', PStr ''hi''), (''debug'', PInt 1)] default_response ''message''
        = Some (PStr ''hi'')
   \<and> copy_fields [(''message'', PStr ''hi''), (''debug'', PInt 1)] default_response ''total''
        = Some (PInt 0)"
  using copy_recognized_only[of sample_env "[(''message'', PStr ''hi''), (''debug'', PInt 1)]"]
  by (simp add: recognized_keys_def)

subsection \<open>Redirect inference\<close>

lemma force_redirect_eq:
  assumes "r ''redirect'' = Some rd"
  shows "force_redirect ql r = Inr
       (if truthy rd then r
        else if menu_keyword ql
          then r(''redirect'' \<mapsto> PBool True, ''redirect_url'' \<mapsto> PStr ''/menu'')
        else if order_keyword ql
          then r(''redirect'' \<mapsto> PBool True, ''redirect_url'' \<mapsto> PStr ''/order_summary'')
        else r)"
  using assms by (simp add: force_redirect_def and_not_redirect_def lookup_def)

text \<open>
  Claim C8. If the field copy of steps 2 and 3 raises, so does the normalizer.
  Otherwise the response after the field copy has a redirect flag, and step 4
  returns: if the flag is true (in Python's sense) the response stays as it is;
  if it is false and the lowercased utterance contains a menu keyword, redirect
  becomes true and redirect_url \<^verbatim>\<open>/menu\<close>; otherwise, if the lowercased
  utterance contains an order keyword, redirect becomes true and redirect_url
  \<^verbatim>\<open>/order_summary\<close>; otherwise nothing changes. The keywords are looked
  for in the utterance only.
\<close>

theorem redirect_inference:
  "(case absorb_output e final_output default_response of
      Inl x \<Rightarrow> infer_redirect e question final_output = Inl x
    | Inr r \<Rightarrow>
        (\<exists>rd. r ''redirect'' = Some rd \<and>
           infer_redirect e question final_output = Inr
             (if truthy rd then r
              else if menu_keyword (str_lower e question)
                then r(''redirect'' \<mapsto> PBool True, ''redirect_url'' \<mapsto> PStr ''/menu'')
              else if order_keyword (str_lower e question)
                then r(''redirect'' \<mapsto> PBool True, ''redirect_url'' \<mapsto> PStr ''/order_summary'')
              else r)))"
proof (cases "absorb_output e final_output default_response")
  case (Inl x)
  then show ?thesis by (simp add: infer_redirect_def)
next
  case (Inr r)
  obtain rd where rd: "r ''redirect'' = Some rd"
    using absorbed_redirect[OF Inr] by blast
  have "infer_redirect e question final_output = Inr
             (if truthy rd then r
              else if menu_keyword (str_lower e question)
                then r(''redirect'' \<mapsto> PBool True, ''redirect_url'' \<mapsto> PStr ''/menu'')
              else if order_keyword (str_lower e question)
                then r(''redirect'' \<mapsto> PBool True, ''redirect_url'' \<mapsto> PStr ''/order_summary'')
              else r)"
    using force_redirect_eq[where r = r and rd = rd and ql = "str_lower e question"] rd Inr
    by (simp add: infer_redirect_def)
  then show ?thesis using Inr rd by simp
qed

theorem redirect_inference_witness:
  "\<exists>r. infer_redirect sample_env ''mujhe menu dikhao'' (PStr ''Here you go'') = Inr r
      \<and> r ''redirect'' = Some (PBool True) \<and> r ''redirect_url'' = Some (PStr ''/menu'')
      \<and> r ''message'' = Some (PStr ''Here you go'')"
proof -
  define r1 where "r1 = default_response(''message'' \<mapsto> PStr ''Here you go'')"
  have a: "absorb_output sample_env (PStr ''Here you go'') default_response = Inr r1"
    by (simp add: sample_absorb_text r1_def)
  have m: "menu_keyword (str_lower sample_env ''mujhe menu dikhao'')"
    by (simp add: menu_keyword_def sample_env_fields ascii_lower_def ascii_lower_char_def
          startswith_def)
  have rd: "r1 ''redirect'' = Some (PBool False)"
    by (simp add: r1_def default_response_def)
  from redirect_inference[where e = sample_env and final_output = "PStr ''Here you go''"
      and question = "''mujhe menu dikhao''"]
  have "infer_redirect sample_env ''mujhe menu dikhao'' (PStr ''Here you go'')
          = Inr (r1(''redirect'' \<mapsto> PBool True, ''redirect_url'' \<mapsto> PStr ''/menu''))"
    using a m rd by auto
  then show ?thesis by (simp add: r1_def)
qed

lemma infer_redirect_returns:
  assumes "absorb_output e fo default_response = Inr r1"
  shows "\<exists>r. infer_redirect e q fo = Inr r"
proof -
  obtain rd where "r1 ''redirect'' = Some rd" using absorbed_redirect[OF assms] by blast
  then show ?thesis
    using force_redirect_eq[where r = r1 and rd = rd and ql = "str_lower e q"] assms
    by (simp add: infer_redirect_def)
qed

subsection \<open>The confirmation safety net\<close>

lemma usable_context_True:
  assumes "py_get context ''table_number'' PNone = Inr tn" "truthy tn"
      and "py_get context ''items'' PNone = Inr its" "truthy its"
  shows "usable_context context = Inr True
       \<and> py_getitem context ''table_number'' = Inr tn
       \<and> py_getitem context ''items'' = Inr its"
proof -
  obtain d where d: "context = PDict d" using assms(1) by (cases "context") auto
  have tn: "map_of d ''table_number'' = Some tn"
    using assms(1,2) d by (auto split: option.splits)
  have its: "map_of d ''items'' = Some its"
    using assms(3,4) d by (auto split: option.splits)
  have "d \<noteq> []" using tn by auto
  then show ?thesis using d tn its assms(2,4) by (simp add: usable_context_def)
qed

lemma normalize_confirm_eq:
  assumes "contains ''confirm order'' (str_lower e question)"
      and "absorb_output e final_output default_response = Inr r1"
      and "py_get context ''table_number'' PNone = Inr tn" and "truthy tn"
      and "py_get context ''items'' PNone = Inr its" and "truthy its"
      and "py_get context ''total'' (PInt 0) = Inr tot"
      and "insert_error e \<lparr>tableNumber = tn, items = its, totalAmount = tot, timestamp = now\<rparr>
             (orders w) = None"
  shows "\<exists>r0. normalize e now question context final_output w =
      Inr (r0(''message'' \<mapsto> PStr confirmed_text,
              ''redirect'' \<mapsto> PBool True,
              ''redirect_url'' \<mapsto> PStr ''/order_summary'',
              ''table_number'' \<mapsto> tn,
              ''items'' \<mapsto> its,
              ''total'' \<mapsto> tot),
           w\<lparr>orders := orders w @
                     [\<lparr>tableNumber = tn, items = its, totalAmount = tot, timestamp = now\<rparr>]\<rparr>)"
proof -
  obtain r0 where r0: "infer_redirect e question final_output = Inr r0"
    using infer_redirect_returns[OF assms(2)] by blast
  note u = usable_context_True[OF assms(3,4,5,6)]
  have body: "confirm_body e now context r0 w =
      Inr (r0(''message'' \<mapsto> PStr confirmed_text,
              ''redirect'' \<mapsto> PBool True,
              ''redirect_url'' \<mapsto> PStr ''/order_summary'',
              ''table_number'' \<mapsto> tn,
              ''items'' \<mapsto> its,
              ''total'' \<mapsto> tot),
           w\<lparr>orders := orders w @
                     [\<lparr>tableNumber = tn, items = its, totalAmount = tot, timestamp = now\<rparr>]\<rparr>)"
    using u assms(7,8) by (simp add: confirm_body_def insert_one_def)
  have "normalize e now question context final_output w =
      Inr (r0(''message'' \<mapsto> PStr confirmed_text,
              ''redirect'' \<mapsto> PBool True,
              ''redirect_url'' \<mapsto> PStr ''/order_summary'',
              ''table_number'' \<mapsto> tn,
              ''items'' \<mapsto> its,
              ''total'' \<mapsto> tot),
           w\<lparr>orders := orders w @
                     [\<lparr>tableNumber = tn, items = its, totalAmount = tot, timestamp = now\<rparr>]\<rparr>)"
    using r0 body assms(1) by (simp add: normalize_def confirm_step_def)
  then show ?thesis by blast
qed

lemma confirm_persists:
  assumes "contains ''confirm order'' (str_lower e question)"
      and "absorb_output e final_output default_response = Inr r1"
      and "py_get context ''table_number'' PNone = Inr tn" and "truthy tn"
      and "py_get context ''items'' PNone = Inr its" and "truthy its"
      and "py_get context ''total'' (PInt 0) = Inr tot"
      and "insert_error e \<lparr>tableNumber = tn, items = its, totalAmount = tot, timestamp = now\<rparr>
             (orders w) = None"
  shows "\<exists>r. normalize e now question context final_output w
              = Inr (r, w\<lparr>orders := orders w @
                     [\<lparr>tableNumber = tn, items = its, totalAmount = tot, timestamp = now\<rparr>]\<rparr>)"
  using normalize_confirm_eq[OF assms] by blast

text \<open>
  An exception of steps 2 and 3 leaves the normalizer before the safety net.
\<close>

lemma normalize_raises:
  assumes "absorb_output e final_output default_response = Inl x"
  shows "normalize e now question context final_output w = Inl x"
  using assms by (simp add: normalize_def infer_redirect_def)

text \<open>
  Claim C1, as amended. When the lowercased utterance contains
  \<^verbatim>\<open>confirm order\<close>, the field copy of steps 2 and 3 returns (the agent's
  output is not a string on which \<^verbatim>\<open>json.loads\<close> raises something other
  than \<^verbatim>\<open>JSONDecodeError\<close>), the context is a dict whose table_number and
  items are both true in Python's sense, and the order store accepts the write,
  the normalizer appends to the store one order made of the context's
  table_number, items and total as they are (total 0 when the context has
  none), with the current time, and the response's message, redirect,
  redirect_url, table_number, items and total are those of the saved order.
\<close>

theorem confirm_with_context:
  assumes "contains ''confirm order'' (str_lower e question)"
      and "absorb_output e final_output default_response = Inr r1"
      and "py_get context ''table_number'' PNone = Inr tn" and "truthy tn"
      and "py_get context ''items'' PNone = Inr its" and "truthy its"
      and "py_get context ''total'' (PInt 0) = Inr tot"
      and "insert_error e \<lparr>tableNumber = tn, items = its, totalAmount = tot, timestamp = now\<rparr>
             (orders w) = None"
  shows "\<exists>r. normalize e now question context final_output w
              = Inr (r, w\<lparr>orders := orders w @
                     [\<lparr>tableNumber = tn, items = its, totalAmount = tot, timestamp = now\<rparr>]\<rparr>)
           \<and> r ''message'' = Some (PStr confirmed_text)
           \<and> r ''redirect'' = Some (PBool True)
           \<and> r ''redirect_url'' = Some (PStr ''/order_summary'')
           \<and> r ''table_number'' = Some tn
           \<and> r ''items'' = Some its
           \<and> r ''total'' = Some tot"
proof -
  from normalize_confirm_eq[OF assms]
  obtain r0 where n: "normalize e now question context final_output w =
      Inr (r0(''message'' \<mapsto> PStr confirmed_text,
              ''redirect'' \<mapsto> PBool True,
              ''redirect_url'' \<mapsto> PStr ''/order_summary'',
              ''table_number'' \<mapsto> tn,
              ''items'' \<mapsto> its,
              ''total'' \<mapsto> tot),
           w\<lparr>orders := orders w @
                     [\<lparr>tableNumber = tn, items = its, totalAmount = tot, timestamp = now\<rparr>]\<rparr>)"
    by blast
  show ?thesis unfolding n by simp
qed

theorem confirm_with_context_witness:
  "\<exists>r. normalize sample_env 7 ''confirm order'' sample_context (PStr ''done'') empty_world
              = Inr (r, empty_world\<lparr>orders := orders empty_world @
                     [\<lparr>tableNumber = PStr ''5'', items = sample_items, totalAmount = PInt 20, timestamp = 7\<rparr>]\<rparr>)
           \<and> r ''message'' = Some (PStr confirmed_text)
           \<and> r ''redirect'' = Some (PBool True)
           \<and> r ''redirect_url'' = Some (PStr ''/order_summary'')
           \<and> r ''table_number'' = Some (PStr ''5'')
           \<and> r ''items'' = Some sample_items
           \<and> r ''total'' = Some (PInt 20)"
proof -
  have t: "py_get sample_context ''table_number'' PNone = Inr (PStr ''5'')"
    by (simp add: sample_context_def)
  have tt: "truthy (PStr ''5'')" by simp
  have i: "py_get sample_context ''items'' PNone = Inr sample_items"
    by (simp add: sample_context_def)
  have it: "truthy sample_items" by (simp add: sample_items_def)
  have tot: "py_get sample_context ''total'' (PInt 0) = Inr (PInt 20)"
    by (simp add: sample_context_def)
  have ins: "insert_error sample_env
       \<lparr>tableNumber = PStr ''5'', items = sample_items, totalAmount = PInt 20, timestamp = 7\<rparr>
       (orders empty_world) = None"
    by (simp add: sample_env_fields)
  show ?thesis using confirm_with_context[OF sample_question sample_absorb_text(2) t tt i it tot ins] .
qed

text \<open>
  Claim C1 as stated fails for an agent output of 5000 digits: the utterance is
  \<^verbatim>\<open>confirm order\<close>, the context is the usable one of the specification's
  example and the store would accept the write, yet the normalizer raises
  \<^verbatim>\<open>ValueError\<close> and stores nothing.
\<close>

theorem confirm_with_context_counterexample:
  "contains ''confirm order'' (str_lower sample_env ''confirm order'')
   \<and> usable_context sample_context = Inr True
   \<and> insert_error sample_env
         \<lparr>tableNumber = PStr ''5'', items = sample_items, totalAmount = PInt 20, timestamp = 0\<rparr>
         (orders empty_world) = None
   \<and> normalize sample_env 0 ''confirm order'' sample_context (PStr many_digits) empty_world
       = Inl ValueError"
proof -
  have u: "usable_context sample_context = Inr True"
    by (simp add: usable_context_def sample_context_def sample_items_def)
  have n: "normalize sample_env 0 ''confirm order'' sample_context (PStr many_digits) empty_world
       = Inl ValueError"
    by (rule normalize_raises[OF sample_absorb_digits])
  show ?thesis using sample_question u n by (simp add: sample_env_fields)
qed

lemma usable_context_False:
  assumes "\<not> truthy context
         \<or> (\<exists>tn its. py_get context ''table_number'' PNone = Inr tn
                \<and> py_get context ''items'' PNone = Inr its
                \<and> \<not> (truthy tn \<and> truthy its))"
  shows "usable_context context = Inr False"
  using assms
proof
  assume "\<not> truthy context"
  then show ?thesis by (simp add: usable_context_def)
next
  assume "\<exists>tn its. py_get context ''table_number'' PNone = Inr tn
                \<and> py_get context ''items'' PNone = Inr its
                \<and> \<not> (truthy tn \<and> truthy its)"
  then obtain tn its where h: "py_get context ''table_number'' PNone = Inr tn"
      "py_get context ''items'' PNone = Inr its" "\<not> (truthy tn \<and> truthy its)" by blast
  then show ?thesis by (auto simp: usable_context_def)
qed

lemma confirm_clarifies:
  assumes "contains ''confirm order'' (str_lower e question)"
      and "absorb_output e final_output default_response = Inr r1"
      and "\<not> truthy context
         \<or> (\<exists>tn its. py_get context ''table_number'' PNone = Inr tn
                \<and> py_get context ''items'' PNone = Inr its
                \<and> \<not> (truthy tn \<and> truthy its))"
  shows "\<exists>r. normalize e now question context final_output w = Inr (r, w)
           \<and> r ''message'' = Some (PStr clarification_text)"
proof -
  obtain r0 where r0: "infer_redirect e question final_output = Inr r0"
    using infer_redirect_returns[OF assms(2)] by blast
  have "confirm_body e now context r0 w = Inr (r0(''message'' \<mapsto> PStr clarification_text), w)"
    using usable_context_False[OF assms(3)] by (simp add: confirm_body_def)
  then have "normalize e now question context final_output w
          = Inr (r0(''message'' \<mapsto> PStr clarification_text), w)"
    using r0 assms(1) by (simp add: normalize_def confirm_step_def)
  then show ?thesis by simp
qed

lemma confirm_non_dict_context:
  assumes "contains ''confirm order'' (str_lower e question)"
      and "absorb_output e final_output default_response = Inr r1"
      and "truthy context" and "\<forall>d. context \<noteq> PDict d"
  shows "\<exists>r. normalize e now question context final_output w = Inr (r, w)
           \<and> r ''message'' = Some (PStr failed_text)"
proof -
  obtain r0 where r0: "infer_redirect e question final_output = Inr r0"
    using infer_redirect_returns[OF assms(2)] by blast
  have "py_get context ''table_number'' PNone = Inl AttributeError"
    using assms(4) by (cases "context") auto
  then have "confirm_body e now context r0 w = Inl AttributeError"
    using assms(3) by (simp add: confirm_body_def usable_context_def)
  then have "normalize e now question context final_output w
          = Inr (r0(''message'' \<mapsto> PStr failed_text), w)"
    using r0 assms(1) by (simp add: normalize_def confirm_step_def)
  then show ?thesis by simp
qed

text \<open>
  Claim C7, as amended. When the lowercased utterance contains
  \<^verbatim>\<open>confirm order\<close> and the field copy of steps 2 and 3 returns: for a
  context that is absent or empty, or a dict whose table_number or items is
  missing or false in Python's sense, the response's message is the fixed
  clarification text and the store is left as it was; for a context that is
  neither empty nor a dict (it has no \<^verbatim>\<open>get\<close>), the catch-all of line
  529 answers with the failure text, and the store is left as it was.
\<close>

theorem confirm_without_context:
  assumes "contains ''confirm order'' (str_lower e question)"
      and "absorb_output e final_output default_response = Inr r1"
  shows "((\<not> truthy context
           \<or> (\<exists>tn its. py_get context ''table_number'' PNone = Inr tn
                \<and> py_get context ''items'' PNone = Inr its
                \<and> \<not> (truthy tn \<and> truthy its)))
          \<longrightarrow> (\<exists>r. normalize e now question context final_output w = Inr (r, w)
                 \<and> r ''message'' = Some (PStr clarification_text)))
       \<and> ((truthy context \<and> (\<forall>d. context \<noteq> PDict d))
          \<longrightarrow> (\<exists>r. normalize e now question context final_output w = Inr (r, w)
                 \<and> r ''message'' = Some (PStr failed_text)))"
proof (intro conjI impI)
  assume "\<not> truthy context
           \<or> (\<exists>tn its. py_get context ''table_number'' PNone = Inr tn
                \<and> py_get context ''items'' PNone = Inr its
                \<and> \<not> (truthy tn \<and> truthy its))"
  then show "\<exists>r. normalize e now question context final_output w = Inr (r, w)
                 \<and> r ''message'' = Some (PStr clarification_text)"
    by (rule confirm_clarifies[OF assms])
next
  assume "truthy context \<and> (\<forall>d. context \<noteq> PDict d)"
  then show "\<exists>r. normalize e now question context final_output w = Inr (r, w)
                 \<and> r ''message'' = Some (PStr failed_text)"
    using confirm_non_dict_context[OF assms] by blast
qed

theorem confirm_without_context_witness:
  "(\<exists>r. normalize sample_env 7 ''confirm order'' PNone (PStr ''done'') empty_world = Inr (r, empty_world)
           \<and> r ''message'' = Some (PStr clarification_text))
   \<and> (\<exists>r. normalize sample_env 7 ''confirm order'' list_context (PStr ''done'') empty_world
             = Inr (r, empty_world)
           \<and> r ''message'' = Some (PStr failed_text))"
proof -
  have c: "\<not> truthy PNone
         \<or> (\<exists>tn its. py_get PNone ''table_number'' PNone = Inr tn
                \<and> py_get PNone ''items'' PNone = Inr its
                \<and> \<not> (truthy tn \<and> truthy its))" by simp
  have l: "truthy list_context \<and> (\<forall>d. list_context \<noteq> PDict d)"
    by (simp add: list_context_def)
  show ?thesis
    using confirm_without_context[OF sample_question sample_absorb_text(2), of PNone 7 empty_world] c
      confirm_without_context[OF sample_question sample_absorb_text(2), of list_context 7 empty_world] l
    by blast
qed

text \<open>
  Claim C7 as stated fails twice. The context \<^verbatim>\<open>[1]\<close> has no table
  number, and the message is the failure text, not the clarification text. The
  context \<^verbatim>\<open>{"table_number": 5, "items": 7}\<close> has no item list, and an
  order is stored.
\<close>

theorem confirm_without_context_counterexample:
  "message_of (normalize sample_env 0 ''confirm order'' list_context (PStr ''ok'') empty_world)
     = Inr (Some (PStr failed_text))
   \<and> failed_text \<noteq> clarification_text
   \<and> stored_of (normalize sample_env 0 ''confirm order'' odd_context (PStr ''ok'') empty_world)
     = Inr [odd_doc]"
proof -
  have l: "truthy list_context" "\<forall>d. list_context \<noteq> PDict d"
    by (simp_all add: list_context_def)
  from confirm_non_dict_context[OF sample_question sample_absorb_text(1) l, of 0 empty_world]
  have a: "message_of (normalize sample_env 0 ''confirm order'' list_context (PStr ''ok'') empty_world)
     = Inr (Some (PStr failed_text))"
    by (auto simp: message_of_def)
  have b: "failed_text \<noteq> clarification_text"
    by (simp add: failed_text_def clarification_text_def)
  have t: "py_get odd_context ''table_number'' PNone = Inr (PInt 5)"
    by (simp add: odd_context_def)
  have i: "py_get odd_context ''items'' PNone = Inr (PInt 7)"
    by (simp add: odd_context_def)
  have tot: "py_get odd_context ''total'' (PInt 0) = Inr (PInt 0)"
    by (simp add: odd_context_def)
  have ins: "insert_error sample_env
       \<lparr>tableNumber = PInt 5, items = PInt 7, totalAmount = PInt 0, timestamp = 0\<rparr>
       (orders empty_world) = None"
    by (simp add: sample_env_fields)
  from confirm_persists[OF sample_question sample_absorb_text(1) t _ i _ tot ins]
  have c: "stored_of (normalize sample_env 0 ''confirm order'' odd_context (PStr ''ok'') empty_world)
     = Inr [odd_doc]"
    by (auto simp: stored_of_def odd_doc_def empty_world_def)
  show ?thesis using a b c by simp
qed

section \<open>Stored orders: proofs\<close>

lemma subtotals_snoc:
  "subtotals v = Inr ss \<Longrightarrow> py_getitem item ''subtotal'' = Inr s
     \<Longrightarrow> subtotals (v @ [item]) = Inr (ss @ [s])"
  by (induction v arbitrary: ss) (auto split: sum.splits)

lemma py_sum_snoc:
  "py_sum e acc ss = Inr t \<Longrightarrow> py_sum e acc (ss @ [x]) = num_add e t x"
  by (induction ss arbitrary: acc) (auto split: sum.splits)

lemma place_order_loop_step:
  assumes "place_order_loop e ps (item # rest) v t = Inr (Inr (v', t'))"
  shows "\<exists>product price q t2.
           find_one_by_name e ps (it_name item) = Inr (Some product)
         \<and> py_float e (p_price product) = Some price
         \<and> float_of_int e (it_quantity item) = Some q
         \<and> num_add e t (PFloat (float_mul e price q)) = Inr t2
         \<and> place_order_loop e ps rest
              (v @ [PDict
                 [(''_id'', PStr (p_id product)),
                  (''name'', PStr (p_name product)),
                  (''quantity'', PInt (it_quantity item)),
                  (''price'', PFloat price),
                  (''subtotal'', PFloat (float_mul e price q)),
                  (''category'', PStr (p_category product)),
                  (''description'', PStr (p_description product)),
                  (''image'', PStr (p_image product))]]) t2 = Inr (Inr (v', t'))"
  using assms by (auto simp: Let_def split: sum.splits option.splits)

text \<open>
  The invariant of the loop: the running total is the sum of the subtotals of
  the items validated so far.
\<close>

lemma place_order_loop_sum:
  "place_order_loop e ps its v t = Inr (Inr (v', t')) \<Longrightarrow> subtotals v = Inr ss
     \<Longrightarrow> py_sum e (PInt 0) ss = Inr t
     \<Longrightarrow> \<exists>ss'. subtotals v' = Inr ss' \<and> py_sum e (PInt 0) ss' = Inr t'"
proof (induction its arbitrary: v t ss)
  case Nil
  then show ?case by simp
next
  case (Cons item rest)
  from place_order_loop_step[OF Cons.prems(1)]
  obtain product :: product and price q t2 where
    h: "num_add e t (PFloat (float_mul e price q)) = Inr t2"
       "place_order_loop e ps rest
              (v @ [PDict
                 [(''_id'', PStr (p_id product)),
                  (''name'', PStr (p_name product)),
                  (''quantity'', PInt (it_quantity item)),
                  (''price'', PFloat price),
                  (''subtotal'', PFloat (float_mul e price q)),
                  (''category'', PStr (p_category product)),
                  (''description'', PStr (p_description product)),
                  (''image'', PStr (p_image product))]]) t2 = Inr (Inr (v', t'))"
    by blast
  have s1: "subtotals (v @ [PDict
                 [(''_id'', PStr (p_id product)),
                  (''name'', PStr (p_name product)),
                  (''quantity'', PInt (it_quantity item)),
                  (''price'', PFloat price),
                  (''subtotal'', PFloat (float_mul e price q)),
                  (''category'', PStr (p_category product)),
                  (''description'', PStr (p_description product)),
                  (''image'', PStr (p_image product))]])
        = Inr (ss @ [PFloat (float_mul e price q)])"
    by (rule subtotals_snoc[OF Cons.prems(2)]) simp
  have s2: "py_sum e (PInt 0) (ss @ [PFloat (float_mul e price q)]) = Inr t2"
    using py_sum_snoc[OF Cons.prems(3)] h(1) by simp
  from Cons.IH[OF h(2) s1 s2] show ?case .
qed

lemma place_order_loop_found:
  "place_order_loop e ps its v t = Inr (Inr (v', t'))
     \<Longrightarrow> \<forall>item\<in>set its. \<exists>p. find_one_by_name e ps (it_name item) = Inr (Some p)"
proof (induction its arbitrary: v t)
  case Nil
  then show ?case by simp
next
  case (Cons item rest)
  from place_order_loop_step[OF Cons.prems(1)]
  obtain product price q t2 where
    h: "find_one_by_name e ps (it_name item) = Inr (Some product)"
       "place_order_loop e ps rest
              (v @ [PDict
                 [(''_id'', PStr (p_id product)),
                  (''name'', PStr (p_name product)),
                  (''quantity'', PInt (it_quantity item)),
                  (''price'', PFloat price),
                  (''subtotal'', PFloat (float_mul e price q)),
                  (''category'', PStr (p_category product)),
                  (''description'', PStr (p_description product)),
                  (''image'', PStr (p_image product))]]) t2 = Inr (Inr (v', t'))"
    by blast
  from Cons.IH[OF h(2)] h(1) show ?case by auto
qed

lemma place_order_written:
  assumes "place_order e ps now table_number its w = (res, w')" and "w' \<noteq> w"
  shows "\<exists>v t. place_order_loop e ps its [] (PInt 0) = Inr (Inr (v, t))
           \<and> w' = w\<lparr>orders := orders w @
                [\<lparr>tableNumber = PInt table_number, items = PList v, totalAmount = t,
                  timestamp = now\<rparr>]\<rparr>"
  using assms
  by (auto simp: place_order_def insert_one_def Let_def split: sum.splits option.splits prod.splits)

text \<open>
  \<^verbatim>\<open>place_order\<close> writes nothing unless the lookup of every item found a
  product.
\<close>

lemma place_order_all_or_nothing:
  assumes "place_order e ps now table_number its w = (res, w')" and "w' \<noteq> w"
  shows "\<forall>item\<in>set its. \<exists>p. find_one_by_name e ps (it_name item) = Inr (Some p)"
  using place_order_written[OF assms] place_order_loop_found by blast

lemma place_order_total:
  assumes "place_order e ps now table_number its w = (res, w')"
  shows "w' = w \<or> (\<exists>doc. w' = w\<lparr>orders := orders w @ [doc]\<rparr> \<and> total_is_sum e doc)"
proof (cases "w' = w")
  case True
  then show ?thesis by simp
next
  case False
  from place_order_written[OF assms False] obtain v t where
    h: "place_order_loop e ps its [] (PInt 0) = Inr (Inr (v, t))"
       "w' = w\<lparr>orders := orders w @
                [\<lparr>tableNumber = PInt table_number, items = PList v, totalAmount = t,
                  timestamp = now\<rparr>]\<rparr>" by blast
  have "\<exists>ss'. subtotals v = Inr ss' \<and> py_sum e (PInt 0) ss' = Inr t"
    by (rule place_order_loop_sum[OF h(1), of "[]"]) simp_all
  then have "total_is_sum e \<lparr>tableNumber = PInt table_number, items = PList v, totalAmount = t,
                  timestamp = now\<rparr>"
    by (auto simp: total_is_sum_def sum_of_subtotals_def)
  then show ?thesis using h(2) by blast
qed

lemma normalize_written:
  assumes "normalize e now question context final_output w = Inr (r, w')"
  shows "w' = w
       \<or> (\<exists>tn its tot. py_getitem context ''table_number'' = Inr tn
             \<and> py_getitem context ''items'' = Inr its
             \<and> py_get context ''total'' (PInt 0) = Inr tot
             \<and> w' = w\<lparr>orders := orders w @
                  [\<lparr>tableNumber = tn, items = its, totalAmount = tot, timestamp = now\<rparr>]\<rparr>)"
  using assms
  by (auto simp: normalize_def confirm_step_def confirm_body_def insert_one_def Let_def
           split: sum.splits option.splits if_splits bool.splits)

lemma sample_lookup_pizza:
  "find_one_by_name sample_env [pizza] ''pizza'' = Inr (Some pizza)"
  by (simp add: find_one_by_name_def sample_env_fields sample_regex_def pizza_fields ascii_lower_char_def)

lemma sample_place_order:
  "place_order sample_env [pizza] 3 5 [\<lparr>it_name = ''pizza'', it_quantity = 2\<rparr>] empty_world
     = (Inr (PDict
          [(''message'', PStr ('' Order confirmed & saved for Table '' @ show_int 5
               @ ''! Total bill Rs float'')),
           (''success'', PBool True),
           (''table_number'', PInt 5),
           (''items'', PList [PDict
                 [(''_id'', PStr ''p1''),
                  (''name'', PStr ''Pizza''),
                  (''quantity'', PInt 2),
                  (''price'', PFloat 10),
                  (''subtotal'', PFloat 20),
                  (''category'', PStr ''Main''),
                  (''description'', PStr ''Cheese pizza''),
                  (''image'', PStr ''pizza.png'')]]),
           (''total'', PFloat 20),
           (''redirect'', PBool True),
           (''redirect_url'', PStr ''/order_summary'')]),
        \<lparr>orders = [\<lparr>tableNumber = PInt 5, items = PList [PDict
                 [(''_id'', PStr ''p1''),
                  (''name'', PStr ''Pizza''),
                  (''quantity'', PInt 2),
                  (''price'', PFloat 10),
                  (''subtotal'', PFloat 20),
                  (''category'', PStr ''Main''),
                  (''description'', PStr ''Cheese pizza''),
                  (''image'', PStr ''pizza.png'')]], totalAmount = PFloat 20, timestamp = 3\<rparr>],
         events = []\<rparr>)"
  by (simp add: place_order_def sample_lookup_pizza Let_def num_add_def insert_one_def
        format_num_def empty_world_def sample_env_fields pizza_fields)

text \<open>
  Claim C2, as amended. An order written by \<^verbatim>\<open>place_order\<close> has a total
  equal to the sum of the subtotals of its items, added up from 0 in item order.
  An order written by the normalizer's safety net is the context's
  table_number, items and total as they are (total 0 when the context has
  none): its total is whatever the caller sent.
\<close>

theorem persisted_total:
  "(place_order e ps now table_number its w = (res, w') \<longrightarrow>
       w' = w \<or> (\<exists>doc. w' = w\<lparr>orders := orders w @ [doc]\<rparr> \<and> total_is_sum e doc))
   \<and> (normalize e now question context final_output w = Inr (r, w'') \<longrightarrow>
       w'' = w
       \<or> (\<exists>tn its' tot. py_getitem context ''table_number'' = Inr tn
             \<and> py_getitem context ''items'' = Inr its'
             \<and> py_get context ''total'' (PInt 0) = Inr tot
             \<and> w'' = w\<lparr>orders := orders w @
                  [\<lparr>tableNumber = tn, items = its', totalAmount = tot, timestamp = now\<rparr>]\<rparr>))"
  using place_order_total normalize_written by blast

theorem persisted_total_witness:
  "(\<exists>doc. snd (place_order sample_env [pizza] 3 5 [\<lparr>it_name = ''pizza'', it_quantity = 2\<rparr>] empty_world)
            = empty_world\<lparr>orders := orders empty_world @ [doc]\<rparr>
          \<and> totalAmount doc = PFloat 20 \<and> total_is_sum sample_env doc)
   \<and> (\<exists>r tn its' tot.
         normalize sample_env 3 ''confirm order'' sample_context (PStr ''done'') empty_world
           = Inr (r, empty_world\<lparr>orders := orders empty_world @
                  [\<lparr>tableNumber = tn, items = its', totalAmount = tot, timestamp = 3\<rparr>]\<rparr>)
       \<and> py_get sample_context ''total'' (PInt 0) = Inr tot)"
proof -
  obtain res w' where p: "place_order sample_env [pizza] 3 5
      [\<lparr>it_name = ''pizza'', it_quantity = 2\<rparr>] empty_world = (res, w')"
    by (cases "place_order sample_env [pizza] 3 5
      [\<lparr>it_name = ''pizza'', it_quantity = 2\<rparr>] empty_world") auto
  have w': "orders w' = [\<lparr>tableNumber = PInt 5, items = PList [PDict
                 [(''_id'', PStr ''p1''),
                  (''name'', PStr ''Pizza''),
                  (''quantity'', PInt 2),
                  (''price'', PFloat 10),
                  (''subtotal'', PFloat 20),
                  (''category'', PStr ''Main''),
                  (''description'', PStr ''Cheese pizza''),
                  (''image'', PStr ''pizza.png'')]], totalAmount = PFloat 20, timestamp = 3\<rparr>]"
    using p sample_place_order by auto
  have t: "py_get sample_context ''table_number'' PNone = Inr (PStr ''5'')"
    by (simp add: sample_context_def)
  have i: "py_get sample_context ''items'' PNone = Inr sample_items"
    by (simp add: sample_context_def)
  have it: "truthy sample_items" by (simp add: sample_items_def)
  have tot: "py_get sample_context ''total'' (PInt 0) = Inr (PInt 20)"
    by (simp add: sample_context_def)
  have ins: "insert_error sample_env
       \<lparr>tableNumber = PStr ''5'', items = sample_items, totalAmount = PInt 20, timestamp = 3\<rparr>
       (orders empty_world) = None"
    by (simp add: sample_env_fields)
  from confirm_persists[OF sample_question sample_absorb_text(2) t _ i it tot ins]
  obtain r where n: "normalize sample_env 3 ''confirm order'' sample_context (PStr ''done'') empty_world
      = Inr (r, empty_world\<lparr>orders := orders empty_world @
          [\<lparr>tableNumber = PStr ''5'', items = sample_items, totalAmount = PInt 20, timestamp = 3\<rparr>]\<rparr>)"
    by auto
  note th = persisted_total[of sample_env "[pizza]" 3 5 "[\<lparr>it_name = ''pizza'', it_quantity = 2\<rparr>]"
      empty_world res w' "''confirm order''" sample_context "PStr ''done''" r
      "empty_world\<lparr>orders := orders empty_world @
          [\<lparr>tableNumber = PStr ''5'', items = sample_items, totalAmount = PInt 20, timestamp = 3\<rparr>]\<rparr>"]
  have ne: "w' \<noteq> empty_world" using w' by (auto simp: empty_world_def)
  from th p ne obtain doc where d: "w' = empty_world\<lparr>orders := orders empty_world @ [doc]\<rparr>"
      "total_is_sum sample_env doc" by blast
  have "totalAmount doc = PFloat 20" using d(1) w' by (simp add: empty_world_def)
  then have first: "\<exists>doc. snd (place_order sample_env [pizza] 3 5 [\<lparr>it_name = ''pizza'', it_quantity = 2\<rparr>] empty_world)
            = empty_world\<lparr>orders := orders empty_world @ [doc]\<rparr>
          \<and> totalAmount doc = PFloat 20 \<and> total_is_sum sample_env doc"
    using p d by auto
  show ?thesis using first n tot by blast
qed

text \<open>
  Claim C2 as stated fails for the safety net: a context whose only line has
  subtotal 20 and whose total is 999 is stored with total 999.
\<close>

theorem persisted_total_counterexample:
  "map_sum id (orders \<circ> snd)
     (normalize sample_env 0 ''confirm order'' inflated_context (PStr ''ok'') empty_world)
     = Inr [inflated_doc]
   \<and> \<not> total_is_sum sample_env inflated_doc"
proof -
  have t: "py_get inflated_context ''table_number'' PNone = Inr (PStr ''5'')"
    by (simp add: inflated_context_def)
  have i: "py_get inflated_context ''items'' PNone = Inr priced_items"
    by (simp add: inflated_context_def)
  have it: "truthy priced_items" by (simp add: priced_items_def)
  have tot: "py_get inflated_context ''total'' (PInt 0) = Inr (PInt 999)"
    by (simp add: inflated_context_def)
  have ins: "insert_error sample_env
       \<lparr>tableNumber = PStr ''5'', items = priced_items, totalAmount = PInt 999, timestamp = 0\<rparr>
       (orders empty_world) = None"
    by (simp add: sample_env_fields)
  from confirm_persists[OF sample_question sample_absorb_text(1) t _ i it tot ins]
  obtain r where "normalize sample_env 0 ''confirm order'' inflated_context (PStr ''ok'') empty_world
      = Inr (r, empty_world\<lparr>orders := orders empty_world @ [inflated_doc]\<rparr>)"
    by (auto simp: inflated_doc_def)
  then have a: "map_sum id (orders \<circ> snd)
     (normalize sample_env 0 ''confirm order'' inflated_context (PStr ''ok'') empty_world)
     = Inr [inflated_doc]"
    by (simp add: empty_world_def)
  have "sum_of_subtotals sample_env priced_items = Inr (PInt 20)"
    by (simp add: sum_of_subtotals_def priced_items_def num_add_def)
  then have b: "\<not> total_is_sum sample_env inflated_doc"
    by (simp add: total_is_sum_def inflated_doc_def)
  show ?thesis using a b by simp
qed

text \<open>
  Claim C6, at an input where the code departs from it. The item name
  \<^verbatim>\<open>p.zza\<close> equals no catalog name case-insensitively, yet the pattern
  \<^verbatim>\<open>^p.zza$\<close> built at line 303 matches \<^verbatim>\<open>Pizza\<close>, and an order for
  one Pizza is written.
\<close>

theorem place_order_pattern_match:
  "exact_match sample_env [pizza] ''p.zza'' = None
   \<and> orders (snd (place_order sample_env [pizza] 0 5 [\<lparr>it_name = ''p.zza'', it_quantity = 1\<rparr>]
        empty_world))
     = [\<lparr>tableNumber = PInt 5, items = PList [PDict
                 [(''_id'', PStr ''p1''),
                  (''name'', PStr ''Pizza''),
                  (''quantity'', PInt 1),
                  (''price'', PFloat 10),
                  (''subtotal'', PFloat 10),
                  (''category'', PStr ''Main''),
                  (''description'', PStr ''Cheese pizza''),
                  (''image'', PStr ''pizza.png'')]], totalAmount = PFloat 10, timestamp = 0\<rparr>]"
proof -
  have l: "find_one_by_name sample_env [pizza] ''p.zza'' = Inr (Some pizza)"
    by (simp add: find_one_by_name_def sample_env_fields sample_regex_def pizza_fields ascii_lower_char_def)
  have a: "exact_match sample_env [pizza] ''p.zza'' = None"
    by (simp add: exact_match_def sample_env_fields pizza_fields ascii_lower_def ascii_lower_char_def)
  have b: "orders (snd (place_order sample_env [pizza] 0 5 [\<lparr>it_name = ''p.zza'', it_quantity = 1\<rparr>]
        empty_world))
     = [\<lparr>tableNumber = PInt 5, items = PList [PDict
                 [(''_id'', PStr ''p1''),
                  (''name'', PStr ''Pizza''),
                  (''quantity'', PInt 1),
                  (''price'', PFloat 10),
                  (''subtotal'', PFloat 10),
                  (''category'', PStr ''Main''),
                  (''description'', PStr ''Cheese pizza''),
                  (''image'', PStr ''pizza.png'')]], totalAmount = PFloat 10, timestamp = 0\<rparr>]"
    by (simp add: place_order_def l Let_def num_add_def insert_one_def
        format_num_def empty_world_def sample_env_fields pizza_fields)
  show ?thesis using a b by simp
qed

section \<open>The endpoint: proofs\<close>

lemma show_nat_400: "show_nat 400 = ''400''"
  by code_simp

text \<open>
  Claim C10, as amended. With no audio clip and no question text (the field
  absent or empty), the endpoint raises an HTTP error of status 500, not 400,
  whose detail is \<^verbatim>\<open>str\<close> of the \<^verbatim>\<open>HTTPException\<close> raised at line
  451, that is \<^verbatim>\<open>400: No question or audio provided.\<close>, and the state
  is untouched: no order is stored and no transcription, agent run or speech
  synthesis is recorded.
\<close>

theorem no_question_is_500:
  "ask_agent e now None None order_summary w
     = (Inl (HTTPException 500 ''400: No question or audio provided.''), w)
   \<and> ask_agent e now (Some []) None order_summary w
     = (Inl (HTTPException 500 ''400: No question or audio provided.''), w)"
  by (simp add: ask_agent_def ask_agent_body_def no_question_def str_of_exn_def show_nat_400
        del: show_nat.simps)

theorem no_question_is_500_witness:
  "ask_agent sample_env 0 None None None empty_world
     = (Inl (HTTPException 500 ''400: No question or audio provided.''), empty_world)"
  using no_question_is_500[of sample_env 0 None empty_world] by simp

text \<open>
  Claim C10 as stated fails in its last clause: the detail of the 500 is not
  the original message \<^verbatim>\<open>No question or audio provided.\<close> alone.
\<close>

theorem no_question_counterexample:
  "fst (ask_agent sample_env 0 None None None empty_world)
     \<noteq> Inl (HTTPException 500 ''No question or audio provided.'')"
  by (simp add: ask_agent_def ask_agent_body_def no_question_def str_of_exn_def show_nat_400
        del: show_nat.simps)

end
